theory Spec2Isabelle
  imports Main "HOL-Library.Word" "HOL-Library.Monad_Syntax"
begin

unbundle bit_operations_syntax

text \<open>
  A model of the AES key-wrap cipher of the provider,
  \<^verbatim>\<open>providers/common/ciphers/cipher_aes_wrp.c\<close>: the session context, its creation and
  initialisation, the processing and final functions, the parameter setter and the
  table of variants. Code that this source file calls but does not contain is either an
  argument of the model or a definition marked as modelled from the spec.
\<close>

section \<open>Machine types and buffers\<close>

text \<open>
  The provider is C code for an LP64 platform: \<open>size_t\<close> and \<open>uint64_t\<close> are 64-bit
  unsigned words, \<open>int\<close> and \<open>unsigned int\<close> are 32-bit words (\<open>sint\<close> reads an
  \<open>int\<close>). A conversion between the two widths is \<open>ucast\<close> (from an unsigned
  source, truncating) or \<open>scast\<close> (from a signed source, sign-extending).

  A pointer to bytes is a \<open>byte list option\<close>: \<open>None\<close> is \<open>NULL\<close>, \<open>Some bs\<close> is a
  pointer to a region that holds exactly the bytes \<open>bs\<close>. The length arguments of the
  C functions stay separate arguments, as in the source. A function that would read or
  write outside a region, or call a \<open>NULL\<close> function pointer, has undefined behaviour
  in C; the model returns \<open>None\<close> for such a call and \<open>Some\<close> of the result otherwise.
\<close>

type_synonym byte = "8 word"
type_synonym size_t = "64 word"
type_synonym c_int = "32 word"

definition memcpy :: "byte list \<Rightarrow> byte list \<Rightarrow> size_t \<Rightarrow> byte list option" where
  "memcpy dst src n =
     (if unat n \<le> length dst \<and> unat n \<le> length src
      then Some (take (unat n) src @ drop (unat n) dst) else None)"

definition store :: "byte list \<Rightarrow> byte list \<Rightarrow> byte list option" where
  \<comment> \<open>the bytes \<open>written\<close> through a pointer to the start of the region \<open>buf\<close>\<close>
  "store buf written =
     (if length written \<le> length buf
      then Some (written @ drop (length written) buf) else None)"

section \<open>The session context\<close>

datatype block128_f = AES_encrypt | AES_decrypt

datatype aeswrap_fn =
  CRYPTO_128_wrap | CRYPTO_128_unwrap | CRYPTO_128_wrap_pad | CRYPTO_128_unwrap_pad

datatype prov_reason =
  PROV_R_INVALID_KEY_LENGTH | PROV_R_OUTPUT_BUFFER_TOO_SMALL | PROV_R_FAILED_TO_GET_PARAMETER

text \<open>
  Modelled from the spec: the key schedule \<open>AES_KEY\<close>, a type of the AES primitive,
  which is outside the source file. The spec has it as opaque expanded-key material
  produced at init from the raw key bytes; it is kept symbolically as the key bytes and
  the bit size it was expanded from, together with the direction it was expanded for.
  \<open>AES_KEY_zero\<close> is the all-zero schedule of a fresh context.
\<close>

datatype AES_KEY =
  AES_KEY_zero | AES_KEY_enc "byte list" c_int | AES_KEY_dec "byte list" c_int

text \<open>
  Modelled from the spec: \<open>AES_set_encrypt_key\<close>, of the AES primitive outside the
  source file; it expands the first \<open>bits / 8\<close> key bytes into an encryption schedule.
\<close>

definition AES_set_encrypt_key :: "byte list \<Rightarrow> c_int \<Rightarrow> AES_KEY" where
  "AES_set_encrypt_key userKey bits = AES_KEY_enc (take (unat bits div 8) userKey) bits"

text \<open>
  Modelled from the spec: \<open>AES_set_decrypt_key\<close>, of the AES primitive outside the
  source file; it expands the first \<open>bits / 8\<close> key bytes into a decryption schedule.
\<close>

definition AES_set_decrypt_key :: "byte list \<Rightarrow> c_int \<Rightarrow> AES_KEY" where
  "AES_set_decrypt_key userKey bits = AES_KEY_dec (take (unat bits div 8) userKey) bits"

text \<open>
  Modelled from the spec: \<open>GENERIC_BLOCK_SIZE\<close>, the size of the IV buffer of a
  context, a constant of a header outside the source file. The spec has the IV as a 4-
  or 8-byte value and the block as 16 bytes; the buffer is one block long.
\<close>

definition GENERIC_BLOCK_SIZE :: nat where
  "GENERIC_BLOCK_SIZE = 16"

text \<open>
  Modelled from the spec: the generic cipher context \<open>PROV_CIPHER_CTX\<close>, declared in a
  header outside the source file, with the fields the session of the spec's data model
  has (direction, IV, IV length, padding mode, block function) and the sizes, mode and
  flags a variant fixes. \<open>PROV_AES_WRAP_CTX\<close>, declared in the source file, extends it.
\<close>

record PROV_CIPHER_CTX =
  block :: "block128_f option"
  mode :: "32 word"
  keylen :: size_t
  ivlen :: size_t
  blocksize :: size_t
  pad :: bool
  enc :: bool
  flags :: "64 word"
  iv :: "byte list"

record PROV_AES_WRAP_CTX = PROV_CIPHER_CTX +
  ks :: AES_KEY
  iv_set :: bool
  wrapfn :: "aeswrap_fn option"

definition AES_WRAP_PAD_IVLEN :: size_t where
  "AES_WRAP_PAD_IVLEN = 4"

definition AES_WRAP_NOPAD_IVLEN :: size_t where
  "AES_WRAP_NOPAD_IVLEN = 8"

text \<open>
  Modelled from the spec: \<open>OPENSSL_zalloc\<close>, the allocator, an external collaborator of
  the spec. The argument says whether memory is left; the block it returns is all zero,
  so that a session is created uninitialised.
\<close>

definition OPENSSL_zalloc :: "bool \<Rightarrow> PROV_AES_WRAP_CTX option" where
  "OPENSSL_zalloc mem =
     (if mem then
        Some \<lparr> block = None, mode = 0, keylen = 0, ivlen = 0, blocksize = 0,
               pad = False, enc = False, flags = 0,
               iv = replicate GENERIC_BLOCK_SIZE 0,
               ks = AES_KEY_zero, iv_set = False, wrapfn = None \<rparr>
      else None)"

text \<open>
  Modelled from the spec: \<open>cipher_generic_initkey\<close>, defined outside the source file. A
  variant fixes the key size and the IV length, given in bits and stored in bytes; the
  mode, flags and block size of the variant are stored as given.
\<close>

definition cipher_generic_initkey ::
  "PROV_AES_WRAP_CTX \<Rightarrow> size_t \<Rightarrow> size_t \<Rightarrow> size_t \<Rightarrow> 32 word \<Rightarrow> 64 word
     \<Rightarrow> PROV_AES_WRAP_CTX" where
  "cipher_generic_initkey ctx kbits blkbits ivbits mode' flags' =
     ctx \<lparr> flags := flags', keylen := kbits div 8, ivlen := ivbits div 8,
           mode := mode', blocksize := blkbits div 8 \<rparr>"

definition aes_wrap_newctx ::
  "bool \<Rightarrow> size_t \<Rightarrow> size_t \<Rightarrow> size_t \<Rightarrow> 32 word \<Rightarrow> 64 word
     \<Rightarrow> PROV_AES_WRAP_CTX option" where
  "aes_wrap_newctx mem kbits blkbits ivbits mode' flags' =
     (case OPENSSL_zalloc mem of
        None \<Rightarrow> None
      | Some wctx \<Rightarrow>
          let ctx = cipher_generic_initkey wctx kbits blkbits ivbits mode' flags'
          in Some (ctx \<lparr> pad := (ivlen ctx = AES_WRAP_PAD_IVLEN) \<rparr>))"

section \<open>Initialisation\<close>

definition aes_wrap_init ::
  "PROV_AES_WRAP_CTX \<Rightarrow> byte list option \<Rightarrow> size_t \<Rightarrow> byte list option \<Rightarrow> size_t \<Rightarrow> c_int
     \<Rightarrow> (c_int \<times> PROV_AES_WRAP_CTX \<times> prov_reason list) option" where
  "aes_wrap_init vctx key keylen' iv' ivlen' enc' =
     (let ctx1 = vctx \<lparr> enc := bit enc' 0,
                        block := Some (if enc' \<noteq> 0 then AES_encrypt else AES_decrypt) \<rparr>;
          ctx2 = ctx1 \<lparr> wrapfn :=
                   Some (if pad ctx1
                         then (if enc' \<noteq> 0 then CRYPTO_128_wrap_pad else CRYPTO_128_unwrap_pad)
                         else (if enc' \<noteq> 0 then CRYPTO_128_wrap else CRYPTO_128_unwrap)) \<rparr>;
          ctx3 = (case iv' of
                    None \<Rightarrow> Some ctx2
                  | Some src \<Rightarrow>
                      (case memcpy (iv ctx2) src ivlen' of
                         None \<Rightarrow> None
                       | Some buf \<Rightarrow> Some (ctx2 \<lparr> ivlen := ivlen', iv := buf, iv_set := True \<rparr>)))
      in case ctx3 of
           None \<Rightarrow> None
         | Some ctx \<Rightarrow>
             (case key of
                None \<Rightarrow> Some (1, ctx, [])
              | Some userKey \<Rightarrow>
                  if keylen' \<noteq> keylen ctx
                  then Some (0, ctx, [PROV_R_INVALID_KEY_LENGTH])
                  else if length userKey < unat keylen' then None
                  else if enc ctx
                  then Some (1, ctx \<lparr> ks := AES_set_encrypt_key userKey (ucast (keylen' * 8)) \<rparr>, [])
                  else Some (1, ctx \<lparr> ks := AES_set_decrypt_key userKey (ucast (keylen' * 8)) \<rparr>, [])))"

definition aes_wrap_einit ::
  "PROV_AES_WRAP_CTX \<Rightarrow> byte list option \<Rightarrow> size_t \<Rightarrow> byte list option \<Rightarrow> size_t
     \<Rightarrow> (c_int \<times> PROV_AES_WRAP_CTX \<times> prov_reason list) option" where
  "aes_wrap_einit ctx key keylen' iv' ivlen' = aes_wrap_init ctx key keylen' iv' ivlen' 1"

definition aes_wrap_dinit ::
  "PROV_AES_WRAP_CTX \<Rightarrow> byte list option \<Rightarrow> size_t \<Rightarrow> byte list option \<Rightarrow> size_t
     \<Rightarrow> (c_int \<times> PROV_AES_WRAP_CTX \<times> prov_reason list) option" where
  "aes_wrap_dinit ctx key keylen' iv' ivlen' = aes_wrap_init ctx key keylen' iv' ivlen' 0"

section \<open>Processing\<close>

text \<open>
  The four transforms a session can point to are defined outside the source file. Their
  behaviour is an argument \<open>W\<close> of the processing functions: \<open>W f key iv inp inlen blk\<close>
  is the call \<open>f(key, iv, out, inp, inlen, blk)\<close> and returns the \<open>size_t\<close> result
  together with the bytes it has written from the start of \<open>out\<close>.
\<close>

type_synonym wrap_semantics =
  "aeswrap_fn \<Rightarrow> AES_KEY \<Rightarrow> byte list option \<Rightarrow> byte list \<Rightarrow> size_t \<Rightarrow> block128_f
     \<Rightarrow> size_t \<times> byte list"

definition aes_wrap_cipher_internal ::
  "wrap_semantics \<Rightarrow> PROV_AES_WRAP_CTX \<Rightarrow> byte list option \<Rightarrow> byte list option \<Rightarrow> size_t
     \<Rightarrow> (c_int \<times> byte list option) option" where
  "aes_wrap_cipher_internal W vctx out inp inlen =
     (let pad' = pad vctx in
      case inp of
        None \<Rightarrow> Some (0, out)
      | Some src \<Rightarrow>
          if inlen = 0 then Some (- 1, out)
          else if \<not> enc vctx \<and> (inlen < 16 \<or> inlen AND 7 \<noteq> 0) then Some (- 1, out)
          else if \<not> pad' \<and> inlen AND 7 \<noteq> 0 then Some (- 1, out)
          else
            (case out of
               None \<Rightarrow>
                 if enc vctx
                 then (let inlen1 = (if pad' then (inlen + 7) div 8 * 8 else inlen)
                       in Some (ucast (inlen1 + 8), None))
                 else Some (ucast (inlen - 8), None)
             | Some dst \<Rightarrow>
                 (case (wrapfn vctx, block vctx) of
                    (Some f, Some blk) \<Rightarrow>
                      if length src < unat inlen then None
                      else
                        (let (rv, written) =
                               W f (ks vctx) (if iv_set vctx then Some (iv vctx) else None)
                                 src inlen blk
                         in case store dst written of
                              None \<Rightarrow> None
                            | Some dst' \<Rightarrow> Some (if rv \<noteq> 0 then ucast rv else - 1, Some dst'))
                  | _ \<Rightarrow> None)))"

definition aes_wrap_final ::
  "PROV_AES_WRAP_CTX \<Rightarrow> byte list option \<Rightarrow> size_t \<Rightarrow> size_t
     \<Rightarrow> c_int \<times> PROV_AES_WRAP_CTX \<times> byte list option \<times> size_t" where
  \<comment> \<open>the result is the return value, the context, the output region and \<open>*outl\<close>\<close>
  "aes_wrap_final vctx out outl outsize = (1, vctx, out, 0)"

definition aes_wrap_cipher ::
  "wrap_semantics \<Rightarrow> PROV_AES_WRAP_CTX \<Rightarrow> byte list option \<Rightarrow> size_t \<Rightarrow> size_t
     \<Rightarrow> byte list option \<Rightarrow> size_t
     \<Rightarrow> (c_int \<times> byte list option \<times> size_t \<times> prov_reason list) option" where
  \<comment> \<open>the result is the return value, the output region, \<open>*outl\<close> and the errors raised\<close>
  "aes_wrap_cipher W vctx out outl outsize inp inl =
     (if outsize < inl then Some (- 1, out, outl, [PROV_R_OUTPUT_BUFFER_TOO_SMALL])
      else
        (case aes_wrap_cipher_internal W vctx out inp inl of
           None \<Rightarrow> None
         | Some (r, out') \<Rightarrow>
             (let len = (scast r :: size_t)
              in if len = 0 then Some (- 1, out', outl, [])
                 else Some (1, out', len, []))))"

section \<open>Parameters\<close>

text \<open>
  The parameter array and its accessors belong to the host framework. They are two
  arguments: \<open>locate_keylen params\<close> is
  \<open>OSSL_PARAM_locate_const(params, OSSL_CIPHER_PARAM_KEYLEN)\<close>, and \<open>get_size_t p\<close> is
  \<open>OSSL_PARAM_get_size_t(p, &keylen)\<close>: \<open>None\<close> when it fails, the value otherwise.
\<close>

definition aes_wrap_set_ctx_params ::
  "('p list \<Rightarrow> 'p option) \<Rightarrow> ('p \<Rightarrow> size_t option) \<Rightarrow> PROV_AES_WRAP_CTX \<Rightarrow> 'p list
     \<Rightarrow> c_int \<times> PROV_AES_WRAP_CTX \<times> prov_reason list" where
  "aes_wrap_set_ctx_params locate_keylen get_size_t vctx params =
     (case locate_keylen params of
        None \<Rightarrow> (1, vctx, [])
      | Some p \<Rightarrow>
          (case get_size_t p of
             None \<Rightarrow> (0, vctx, [PROV_R_FAILED_TO_GET_PARAMETER])
           | Some keylen' \<Rightarrow>
               if keylen vctx \<noteq> keylen' then (0, vctx, [PROV_R_INVALID_KEY_LENGTH])
               else (1, vctx, [])))"

section \<open>The dispatch table\<close>

text \<open>
  \<open>IMPLEMENT_cipher\<close> is instantiated six times; each instance's \<open>newctx\<close> calls
  \<open>aes_wrap_newctx\<close> with the instance's key, block and IV sizes in bits (and the wrap
  mode and flags, two constants of a header outside the source file).
\<close>

definition aes_wrap_variants :: "(size_t \<times> size_t \<times> size_t) list" where
  "aes_wrap_variants =
     [(256, 64, AES_WRAP_NOPAD_IVLEN * 8), (192, 64, AES_WRAP_NOPAD_IVLEN * 8),
      (128, 64, AES_WRAP_NOPAD_IVLEN * 8), (256, 64, AES_WRAP_PAD_IVLEN * 8),
      (192, 64, AES_WRAP_PAD_IVLEN * 8), (128, 64, AES_WRAP_PAD_IVLEN * 8)]"

text \<open>
  The entries of the table that work on a live session and are defined in the source
  file:
  the two init functions, update, final and set-context-parameters. \<open>dispatch\<close> is one
  call through the table and gives the session after it; the update function does not
  write to the session.
\<close>

datatype 'p cipher_op =
  Encrypt_init "byte list option" size_t "byte list option" size_t
| Decrypt_init "byte list option" size_t "byte list option" size_t
| Update "byte list option" size_t size_t "byte list option" size_t
| Final "byte list option" size_t size_t
| Set_ctx_params "'p list"

fun dispatch ::
  "wrap_semantics \<Rightarrow> ('p list \<Rightarrow> 'p option) \<Rightarrow> ('p \<Rightarrow> size_t option)
     \<Rightarrow> PROV_AES_WRAP_CTX \<Rightarrow> 'p cipher_op \<Rightarrow> PROV_AES_WRAP_CTX option" where
  "dispatch W L G ctx (Encrypt_init key keylen' iv' ivlen') =
     map_option (fst \<circ> snd) (aes_wrap_einit ctx key keylen' iv' ivlen')"
| "dispatch W L G ctx (Decrypt_init key keylen' iv' ivlen') =
     map_option (fst \<circ> snd) (aes_wrap_dinit ctx key keylen' iv' ivlen')"
| "dispatch W L G ctx (Update out outl outsize inp inl) =
     map_option (\<lambda>_. ctx) (aes_wrap_cipher W ctx out outl outsize inp inl)"
| "dispatch W L G ctx (Final out outl outsize) =
     Some (fst (snd (aes_wrap_final ctx out outl outsize)))"
| "dispatch W L G ctx (Set_ctx_params params) =
     Some (fst (snd (aes_wrap_set_ctx_params L G ctx params)))"

fun run ::
  "wrap_semantics \<Rightarrow> ('p list \<Rightarrow> 'p option) \<Rightarrow> ('p \<Rightarrow> size_t option)
     \<Rightarrow> PROV_AES_WRAP_CTX \<Rightarrow> 'p cipher_op list \<Rightarrow> PROV_AES_WRAP_CTX option" where
  "run W L G ctx [] = Some ctx"
| "run W L G ctx (x # xs) =
     (case dispatch W L G ctx x of None \<Rightarrow> None | Some ctx' \<Rightarrow> run W L G ctx' xs)"

section \<open>The key-wrap transform\<close>

text \<open>
  The four transforms \<open>CRYPTO_128_wrap\<close>, \<open>CRYPTO_128_unwrap\<close>, \<open>CRYPTO_128_wrap_pad\<close>
  and \<open>CRYPTO_128_unwrap_pad\<close> are code outside the source file. This section models
  them from sections 4.1, 4.1.1 and 4.2 of the spec. The block cipher itself stays an
  argument \<open>B\<close>: \<open>B blk key b\<close> is the 16-byte result of the block function \<open>blk\<close> on
  the block \<open>b\<close> under the key schedule \<open>key\<close>.
\<close>

type_synonym block_semantics = "block128_f \<Rightarrow> AES_KEY \<Rightarrow> byte list \<Rightarrow> byte list"

text \<open>
  Modelled from the spec: the default IV of the transform without padding, the constant
  \<open>0xA6A6A6A6A6A6A6A6\<close> of section 4.1.
\<close>

definition default_iv :: "byte list" where
  "default_iv = replicate 8 0xA6"

text \<open>
  Modelled from the spec: the alternate IV of the transform with padding, the constant
  \<open>0xA65959A6\<close> of section 4.2.
\<close>

definition default_aiv :: "byte list" where
  "default_aiv = [0xA6, 0x59, 0x59, 0xA6]"

text \<open>
  Modelled from the spec: the \<open>k\<close>-byte big-endian encoding of a number, used for the
  counter \<open>t\<close> (8 bytes) and for the message-length indicator (4 bytes).
\<close>

fun be_bytes :: "nat \<Rightarrow> nat \<Rightarrow> byte list" where
  "be_bytes 0 t = []"
| "be_bytes (Suc k) t = be_bytes k (t div 256) @ [of_nat (t mod 256)]"

text \<open>
  Modelled from the spec: the number a big-endian byte string encodes, used to recover
  the message-length indicator.
\<close>

definition be_value :: "byte list \<Rightarrow> nat" where
  "be_value bs = foldl (\<lambda>acc b. acc * 256 + unat b) 0 bs"

text \<open>Modelled from the spec: the bytewise XOR of the accumulator with the counter.\<close>

definition xor_bytes :: "byte list \<Rightarrow> byte list \<Rightarrow> byte list" where
  "xor_bytes a b = map (\<lambda>(x, y). x XOR y) (zip a b)"

text \<open>Modelled from the spec: \<open>roundUp8\<close>, the next multiple of 8.\<close>

definition roundUp8 :: "nat \<Rightarrow> nat" where
  "roundUp8 n = (n + 7) div 8 * 8"

text \<open>Modelled from the spec: the first \<open>n\<close> 8-byte units of a byte string.\<close>

fun chunks :: "nat \<Rightarrow> byte list \<Rightarrow> byte list list" where
  "chunks 0 bs = []"
| "chunks (Suc n) bs = take 8 bs # chunks n (drop 8 bs)"

text \<open>Modelled from the spec: the semiblocks \<open>R[1..n]\<close> of a message.\<close>

definition semiblocks :: "byte list \<Rightarrow> byte list list" where
  "semiblocks bs = chunks (length bs div 8) bs"

text \<open>
  Modelled from the spec: the order of the steps of wrap, round \<open>j = 0..5\<close> and in each
  round \<open>i = 1..n\<close>.
\<close>

definition wrap_schedule :: "nat \<Rightarrow> (nat \<times> nat) list" where
  "wrap_schedule n = concat (map (\<lambda>j. map (\<lambda>i. (j, i)) [1..<Suc n]) [0..<6])"

text \<open>
  Modelled from the spec: the order of the steps of unwrap, with \<open>t = n * j + i\<close>
  counted down from \<open>n * 6\<close> to 1.
\<close>

definition unwrap_schedule :: "nat \<Rightarrow> (nat \<times> nat) list" where
  "unwrap_schedule n = concat (map (\<lambda>j. map (\<lambda>i. (j, i)) (rev [1..<Suc n])) (rev [0..<6]))"

text \<open>
  Modelled from the spec: one step of wrap (section 4.1). The block \<open>A \<parallel> R[i]\<close> is
  encrypted; the high 8 bytes XOR \<open>t\<close> become \<open>A\<close>, the low 8 bytes become \<open>R[i]\<close>.
\<close>

definition wrap_step ::
  "(byte list \<Rightarrow> byte list) \<Rightarrow> nat \<Rightarrow> nat \<times> nat \<Rightarrow> byte list \<times> byte list list
     \<Rightarrow> byte list \<times> byte list list" where
  "wrap_step E n ji s =
     (case (ji, s) of
        ((j, i), (A, R)) \<Rightarrow>
          let B = E (A @ R ! (i - 1))
          in (xor_bytes (take 8 B) (be_bytes 8 (n * j + i)), R[i - 1 := drop 8 B]))"

text \<open>
  Modelled from the spec: one step of unwrap (section 4.1). The block
  \<open>(A XOR t) \<parallel> R[i]\<close> is decrypted and split into the new \<open>A\<close> and \<open>R[i]\<close>.
\<close>

definition unwrap_step ::
  "(byte list \<Rightarrow> byte list) \<Rightarrow> nat \<Rightarrow> nat \<times> nat \<Rightarrow> byte list \<times> byte list list
     \<Rightarrow> byte list \<times> byte list list" where
  "unwrap_step D n ji s =
     (case (ji, s) of
        ((j, i), (A, R)) \<Rightarrow>
          let B = D (xor_bytes A (be_bytes 8 (n * j + i)) @ R ! (i - 1))
          in (take 8 B, R[i - 1 := drop 8 B]))"

text \<open>
  Modelled from the spec: wrap of the semiblocks of \<open>P\<close> from the accumulator \<open>A0\<close>
  (section 4.1), and the single block call when there is one semiblock (section 4.1.1).
  The result is \<open>A \<parallel> R[1] \<parallel> \<dots> \<parallel> R[n]\<close>.
\<close>

definition kw_wrap_raw :: "(byte list \<Rightarrow> byte list) \<Rightarrow> byte list \<Rightarrow> byte list \<Rightarrow> byte list" where
  "kw_wrap_raw E A0 P =
     (let R0 = semiblocks P; n = length R0
      in if n = 1 then E (A0 @ concat R0)
         else (case fold (wrap_step E n) (wrap_schedule n) (A0, R0) of
                 (A, R) \<Rightarrow> A @ concat R))"

text \<open>
  Modelled from the spec: unwrap of a ciphertext into the recovered accumulator and the
  recovered semiblocks (sections 4.1 and 4.1.1), before the accumulator is verified.
\<close>

definition kw_unwrap_raw ::
  "(byte list \<Rightarrow> byte list) \<Rightarrow> byte list \<Rightarrow> byte list \<times> byte list" where
  "kw_unwrap_raw D C =
     (let R0 = semiblocks (drop 8 C); n = length R0
      in if n = 1 then (let B = D (take 8 C @ concat R0) in (take 8 B, drop 8 B))
         else (case fold (unwrap_step D n) (unwrap_schedule n) (take 8 C, R0) of
                 (A, R) \<Rightarrow> (A, concat R)))"

text \<open>
  Modelled from the spec: \<open>CRYPTO_128_wrap\<close>. The accumulator starts as the caller's
  IV, or the default constant when there is none; the message length must be a positive
  multiple of 8. The result is the number of bytes written, 0 on failure.
\<close>

definition kw_wrap ::
  "block_semantics \<Rightarrow> AES_KEY \<Rightarrow> byte list option \<Rightarrow> byte list \<Rightarrow> size_t \<Rightarrow> block128_f
     \<Rightarrow> size_t \<times> byte list" where
  "kw_wrap B key iv' inp inlen blk =
     (let A0 = (case iv' of None \<Rightarrow> default_iv | Some v \<Rightarrow> take 8 v)
      in if unat inlen mod 8 \<noteq> 0 \<or> unat inlen = 0 then (0, [])
         else (let C = kw_wrap_raw (B blk key) A0 (take (unat inlen) inp)
               in (of_nat (length C), C)))"

text \<open>
  Modelled from the spec: \<open>CRYPTO_128_unwrap\<close>. The ciphertext length must be a
  multiple of 8 and at least 16; when the recovered accumulator differs from the
  expected IV the call fails and releases no plaintext.
\<close>

definition kw_unwrap ::
  "block_semantics \<Rightarrow> AES_KEY \<Rightarrow> byte list option \<Rightarrow> byte list \<Rightarrow> size_t \<Rightarrow> block128_f
     \<Rightarrow> size_t \<times> byte list" where
  "kw_unwrap B key iv' inp inlen blk =
     (let A0 = (case iv' of None \<Rightarrow> default_iv | Some v \<Rightarrow> take 8 v)
      in if unat inlen mod 8 \<noteq> 0 \<or> unat inlen < 16 then (0, [])
         else (case kw_unwrap_raw (B blk key) (take (unat inlen) inp) of
                 (A, P) \<Rightarrow> if A = A0 then (of_nat (length P), P) else (0, [])))"

text \<open>
  Modelled from the spec: \<open>CRYPTO_128_wrap_pad\<close> (section 4.2). The first semiblock is
  the alternate IV followed by the message length as a 4-byte big-endian integer; the
  message is padded with zero bytes to the next multiple of 8.
\<close>

definition kwp_wrap ::
  "block_semantics \<Rightarrow> AES_KEY \<Rightarrow> byte list option \<Rightarrow> byte list \<Rightarrow> size_t \<Rightarrow> block128_f
     \<Rightarrow> size_t \<times> byte list" where
  "kwp_wrap B key icv inp inlen blk =
     (let m = unat inlen;
          aiv = (case icv of None \<Rightarrow> default_aiv | Some v \<Rightarrow> take 4 v);
          padded = take m inp @ replicate (roundUp8 m - m) 0
      in if m = 0 then (0, [])
         else (let C = kw_wrap_raw (B blk key) (aiv @ be_bytes 4 m) padded
               in (of_nat (length C), C)))"

text \<open>
  Modelled from the spec: \<open>CRYPTO_128_unwrap_pad\<close> (section 4.2). The recovered
  accumulator must start with the alternate IV, and the message-length indicator
  \<open>mli\<close> must satisfy \<open>0 < mli \<le> 8 * n\<close> and \<open>mli \<ge> 8 * n - 7\<close>; the recovered data
  is cut to \<open>mli\<close> bytes.
\<close>

definition kwp_unwrap ::
  "block_semantics \<Rightarrow> AES_KEY \<Rightarrow> byte list option \<Rightarrow> byte list \<Rightarrow> size_t \<Rightarrow> block128_f
     \<Rightarrow> size_t \<times> byte list" where
  "kwp_unwrap B key icv inp inlen blk =
     (let aiv = (case icv of None \<Rightarrow> default_aiv | Some v \<Rightarrow> take 4 v)
      in if unat inlen mod 8 \<noteq> 0 \<or> unat inlen < 16 then (0, [])
         else (case kw_unwrap_raw (B blk key) (take (unat inlen) inp) of
                 (A, P) \<Rightarrow>
                   let mli = be_value (drop 4 A); n8 = length P
                   in if take 4 A = aiv \<and> 0 < mli \<and> mli \<le> n8 \<and> n8 - 7 \<le> mli
                      then (of_nat mli, take mli P) else (0, [])))"

text \<open>
  Modelled from the spec: what a call through each of the four transform pointers does,
  given the block cipher.
\<close>

definition key_wrap_transform :: "block_semantics \<Rightarrow> wrap_semantics" where
  "key_wrap_transform B f =
     (case f of
        CRYPTO_128_wrap \<Rightarrow> kw_wrap B
      | CRYPTO_128_unwrap \<Rightarrow> kw_unwrap B
      | CRYPTO_128_wrap_pad \<Rightarrow> kwp_wrap B
      | CRYPTO_128_unwrap_pad \<Rightarrow> kwp_unwrap B)"

text \<open>
  The state of the rounds is the accumulator \<open>A\<close> and the semiblocks \<open>R\<close>;
  \<open>kw_state n\<close> holds of a state with an 8-byte accumulator and \<open>n\<close> semiblocks of
  8 bytes.
\<close>

definition kw_state :: "nat \<Rightarrow> byte list \<times> byte list list \<Rightarrow> bool" where
  "kw_state n s = (case s of (A, R) \<Rightarrow> length A = 8 \<and> length R = n \<and> (\<forall>r\<in>set R. length r = 8))"

section \<open>The size query and the direction, in the words of the spec\<close>

definition valid_input_length :: "bool \<Rightarrow> bool \<Rightarrow> nat \<Rightarrow> bool" where
  \<comment> \<open>the message lengths of the data model: wrap or unwrap, padding or plain\<close>
  "valid_input_length enc' pad' n =
     (if enc' then (if pad' then 0 < n else 0 < n \<and> n mod 8 = 0)
      else 0 < n \<and> n mod 8 = 0 \<and> 16 \<le> n)"

definition query_size :: "bool \<Rightarrow> bool \<Rightarrow> nat \<Rightarrow> nat" where
  "query_size enc' pad' n =
     (if enc' then (if pad' then roundUp8 n + 8 else n + 8) else n - 8)"

fun direction_after :: "bool \<Rightarrow> 'p cipher_op list \<Rightarrow> bool" where
  "direction_after d [] = d"
| "direction_after d (Encrypt_init key keylen' iv' ivlen' # ops) = direction_after True ops"
| "direction_after d (Decrypt_init key keylen' iv' ivlen' # ops) = direction_after False ops"
| "direction_after d (x # ops) = direction_after d ops"

text \<open>
  A session that has been initialised: the block function and the transform are those
  an init call selects for the direction and the padding flag of the session, and the
  IV buffer has its size.
\<close>

definition initialised :: "PROV_AES_WRAP_CTX \<Rightarrow> bool" where
  "initialised vctx =
     (length (iv vctx) = GENERIC_BLOCK_SIZE \<and>
      block vctx = Some (if enc vctx then AES_encrypt else AES_decrypt) \<and>
      wrapfn vctx =
        Some (if pad vctx
              then (if enc vctx then CRYPTO_128_wrap_pad else CRYPTO_128_unwrap_pad)
              else (if enc vctx then CRYPTO_128_wrap else CRYPTO_128_unwrap)))"

section \<open>Example instances\<close>

text \<open>
  A stand-in for the block cipher, used where a statement is evaluated on concrete
  bytes: encryption XORs the block with the key bytes and adds one to every byte,
  decryption undoes it.
\<close>

fun schedule_bytes :: "AES_KEY \<Rightarrow> byte list" where
  "schedule_bytes AES_KEY_zero = []"
| "schedule_bytes (AES_KEY_enc k bits) = k"
| "schedule_bytes (AES_KEY_dec k bits) = k"

definition example_block :: block_semantics where
  "example_block f key b =
     (let pad16 = take (length b) (schedule_bytes key @ replicate (length b) 0)
      in case f of
           AES_encrypt \<Rightarrow> map (\<lambda>x. x + 1) (xor_bytes b pad16)
         | AES_decrypt \<Rightarrow> xor_bytes (map (\<lambda>x. x - 1) b) pad16)"

definition example_key :: "byte list" where
  "example_key = [0, 1, 2, 3, 4, 5, 6, 7, 8, 9, 10, 11, 12, 13, 14, 15]"

definition example_data :: "byte list" where
  "example_data = [0x00, 0x11, 0x22, 0x33, 0x44, 0x55, 0x66, 0x77,
                   0x88, 0x99, 0xAA, 0xBB, 0xCC, 0xDD, 0xEE, 0xFF]"

definition example_locate :: "(string \<times> size_t) list \<Rightarrow> (string \<times> size_t) option" where
  "example_locate params = find (\<lambda>p. fst p = ''keylen'') params"

definition example_get_size_t :: "string \<times> size_t \<Rightarrow> size_t option" where
  "example_get_size_t p = Some (snd p)"

definition example_session :: PROV_AES_WRAP_CTX where
  "example_session = \<lparr> block = None, mode = 0x10002, keylen = 16, ivlen = 8, blocksize = 8,
            pad = False, enc = False, flags = 0, iv = replicate 16 0,
            ks = AES_KEY_zero, iv_set = False, wrapfn = None \<rparr>"

definition example_wrap_session :: PROV_AES_WRAP_CTX where
  "example_wrap_session =
     \<lparr> block = Some AES_encrypt, mode = 0x10002, keylen = 16, ivlen = 8, blocksize = 8,
       pad = False, enc = True, flags = 0, iv = replicate 16 0,
       ks = AES_KEY_enc example_key 128, iv_set = False, wrapfn = Some CRYPTO_128_wrap \<rparr>"

definition example_unwrap_session :: PROV_AES_WRAP_CTX where
  "example_unwrap_session =
     \<lparr> block = Some AES_decrypt, mode = 0x10002, keylen = 16, ivlen = 8, blocksize = 8,
       pad = False, enc = False, flags = 0, iv = replicate 16 0,
       ks = AES_KEY_dec example_key 128, iv_set = False, wrapfn = Some CRYPTO_128_unwrap \<rparr>"

text \<open>
  The 128-bit variant with padding: the session as created, as initialised for wrapping
  and for unwrapping with the example key, and the 16 bytes into which the example
  block function wraps the 3-byte message 1, 2, 3.
\<close>

definition example_pad_session :: PROV_AES_WRAP_CTX where
  "example_pad_session = \<lparr> block = None, mode = 0x10002, keylen = 16, ivlen = 4, blocksize = 8,
            pad = True, enc = False, flags = 0, iv = replicate 16 0,
            ks = AES_KEY_zero, iv_set = False, wrapfn = None \<rparr>"

definition example_wrappad_session :: PROV_AES_WRAP_CTX where
  "example_wrappad_session =
     \<lparr> block = Some AES_encrypt, mode = 0x10002, keylen = 16, ivlen = 4, blocksize = 8,
       pad = True, enc = True, flags = 0, iv = replicate 16 0,
       ks = AES_KEY_enc example_key 128, iv_set = False, wrapfn = Some CRYPTO_128_wrap_pad \<rparr>"

definition example_unwrappad_session :: PROV_AES_WRAP_CTX where
  "example_unwrappad_session =
     \<lparr> block = Some AES_decrypt, mode = 0x10002, keylen = 16, ivlen = 4, blocksize = 8,
       pad = True, enc = False, flags = 0, iv = replicate 16 0,
       ks = AES_KEY_dec example_key 128, iv_set = False, wrapfn = Some CRYPTO_128_unwrap_pad \<rparr>"

definition example_pad_ciphertext :: "byte list" where
  "example_pad_ciphertext = [167, 89, 92, 166, 5, 6, 7, 5, 10, 12, 10, 12, 13, 14, 15, 16]"

section \<open>Initialisation and the fields it leaves alone\<close>

lemma aes_wrap_init_pad:
  "aes_wrap_init vctx key keylen' iv' ivlen' enc' = Some (r, ctx, errs) \<Longrightarrow> pad ctx = pad vctx"
  by (auto simp: aes_wrap_init_def Let_def split: option.splits if_splits)

lemma aes_wrap_init_enc:
  "aes_wrap_init vctx key keylen' iv' ivlen' enc' = Some (r, ctx, errs) \<Longrightarrow> enc ctx = bit enc' 0"
  by (auto simp: aes_wrap_init_def Let_def split: option.splits if_splits)

lemma dispatch_pad: "dispatch W L G ctx x = Some ctx' \<Longrightarrow> pad ctx' = pad ctx"
  by (cases x)
    (auto simp: aes_wrap_einit_def aes_wrap_dinit_def aes_wrap_final_def
      aes_wrap_set_ctx_params_def
      dest: aes_wrap_init_pad split: option.splits if_splits)

lemma run_pad: "run W L G ctx xs = Some ctx' \<Longrightarrow> pad ctx' = pad ctx"
proof (induction xs arbitrary: ctx)
  case Nil
  then show ?case by simp
next
  case (Cons x xs)
  then show ?case by (auto split: option.splits dest: dispatch_pad)
qed

lemma dispatch_enc:
  "dispatch W L G ctx x = Some ctx' \<Longrightarrow> enc ctx' = direction_after (enc ctx) [x]"
  by (cases x)
    (auto simp: aes_wrap_einit_def aes_wrap_dinit_def aes_wrap_final_def
      aes_wrap_set_ctx_params_def
      dest: aes_wrap_init_enc split: option.splits if_splits)

lemma direction_after_Cons:
  "direction_after d (x # xs) = direction_after (direction_after d [x]) xs"
  by (cases x) simp_all

lemma newctx_128_wrap:
  "aes_wrap_newctx True 128 64 64 m f =
     Some \<lparr> block = None, mode = m, keylen = 16, ivlen = 8, blocksize = 8,
            pad = False, enc = False, flags = f, iv = replicate 16 0,
            ks = AES_KEY_zero, iv_set = False, wrapfn = None \<rparr>"
  by (simp add: aes_wrap_newctx_def OPENSSL_zalloc_def cipher_generic_initkey_def
      AES_WRAP_PAD_IVLEN_def GENERIC_BLOCK_SIZE_def)

text \<open>
  Claim C4. An init call that supplies key bytes whose length differs from the key
  length of the session never succeeds and never installs the key: either the call
  returns 0 after raising \<open>PROV_R_INVALID_KEY_LENGTH\<close>, with the key schedule and the
  key length of the session as they were, or it has no defined result at all, which
  happens only when the IV copy of the same call leaves its source or the IV buffer.
\<close>

theorem aes_wrap_init_rejects_key_length:
  assumes "keylen' \<noteq> keylen vctx"
  shows "case aes_wrap_init vctx (Some userKey) keylen' iv' ivlen' enc' of
           None \<Rightarrow> \<exists>src. iv' = Some src \<and> (length (iv vctx) < unat ivlen' \<or> length src < unat ivlen')
         | Some (r, ctx, errs) \<Rightarrow>
             r = 0 \<and> errs = [PROV_R_INVALID_KEY_LENGTH] \<and> ks ctx = ks vctx \<and> keylen ctx = keylen vctx"
  using assms
  by (auto simp: aes_wrap_init_def Let_def memcpy_def split: option.splits if_splits)

theorem aes_wrap_init_rejects_key_length_witness:
  "map_option (\<lambda>(r, ctx, errs). (r, errs, ks ctx, keylen ctx))
     (do { c0 \<leftarrow> aes_wrap_newctx True 128 64 64 0x10002 0;
           aes_wrap_init c0 (Some (example_key @ example_key)) 32 None 0 1 })
   = Some (0, [PROV_R_INVALID_KEY_LENGTH], AES_KEY_zero, 16)"
proof -
  let ?c0 = "\<lparr> block = None, mode = 0x10002, keylen = 16, ivlen = 8, blocksize = 8,
            pad = False, enc = False, flags = 0, iv = replicate 16 0,
            ks = AES_KEY_zero, iv_set = False, wrapfn = None \<rparr>"
  have "(32 :: size_t) \<noteq> keylen ?c0" by simp
  from aes_wrap_init_rejects_key_length
    [OF this, where userKey = "example_key @ example_key" and iv' = None and ivlen' = 0 and enc' = 1]
  show ?thesis
    by (auto simp: newctx_128_wrap split: option.splits)
qed

section \<open>Creation and the padding flag\<close>

lemma newctx_128_wrappad:
  "aes_wrap_newctx True 128 64 32 m f =
     Some \<lparr> block = None, mode = m, keylen = 16, ivlen = 4, blocksize = 8,
            pad = True, enc = False, flags = f, iv = replicate 16 0,
            ks = AES_KEY_zero, iv_set = False, wrapfn = None \<rparr>"
  by (simp add: aes_wrap_newctx_def OPENSSL_zalloc_def cipher_generic_initkey_def
      AES_WRAP_PAD_IVLEN_def GENERIC_BLOCK_SIZE_def)

text \<open>
  Claim C6. For each of the six variants the padding flag of a new session is set
  from the IV length stored in the session, which is the variant's: it is set when the
  IV length is 4 bytes and clear when it is 8 bytes. No sequence of calls through the
  table changes it afterwards, whatever IV lengths the init calls supply.
\<close>

theorem pad_fixed_at_creation:
  assumes "(kbits, blkbits, ivbits) \<in> set aes_wrap_variants"
    and "aes_wrap_newctx mem kbits blkbits ivbits mode' flags' = Some c0"
    and "run W L G c0 ops = Some c"
  shows "pad c0 = (ivlen c0 = AES_WRAP_PAD_IVLEN) \<and>
         pad c0 = (ivbits div 8 = AES_WRAP_PAD_IVLEN) \<and>
         (\<not> pad c0) = (ivbits div 8 = AES_WRAP_NOPAD_IVLEN) \<and>
         pad c = pad c0"
proof -
  from assms(2) have l: "pad c0 = (ivlen c0 = AES_WRAP_PAD_IVLEN)"
    by (auto simp: aes_wrap_newctx_def Let_def split: option.splits)
  from assms(2) have c0: "pad c0 = (ivbits div 8 = AES_WRAP_PAD_IVLEN)"
    by (auto simp: aes_wrap_newctx_def OPENSSL_zalloc_def cipher_generic_initkey_def Let_def
        split: if_splits)
  from assms(1) have "ivbits div 8 = AES_WRAP_PAD_IVLEN \<or> ivbits div 8 = AES_WRAP_NOPAD_IVLEN"
    by (auto simp: aes_wrap_variants_def AES_WRAP_PAD_IVLEN_def AES_WRAP_NOPAD_IVLEN_def)
  moreover have "AES_WRAP_PAD_IVLEN \<noteq> AES_WRAP_NOPAD_IVLEN"
    by (simp add: AES_WRAP_PAD_IVLEN_def AES_WRAP_NOPAD_IVLEN_def)
  ultimately have "(\<not> pad c0) = (ivbits div 8 = AES_WRAP_NOPAD_IVLEN)"
    using c0 by auto
  with l c0 run_pad [OF assms(3)] show ?thesis by simp
qed

theorem pad_fixed_at_creation_witness:
  "map_option pad
     (do { c0 \<leftarrow> aes_wrap_newctx True 128 64 32 0x10002 0;
           run (key_wrap_transform example_block) example_locate example_get_size_t c0
             [Encrypt_init (Some example_key) 16 (Some [1, 2, 3, 4, 5, 6, 7, 8]) 8,
              Update None 0 32 (Some example_data) 16,
              Final None 0 0,
              Set_ctx_params [(''keylen'', 16)],
              Decrypt_init None 0 (Some [9, 9]) 2] })
   = Some True"
proof -
  let ?c0 = "\<lparr> block = None, mode = 0x10002, keylen = 16, ivlen = 4, blocksize = 8,
            pad = True, enc = False, flags = 0, iv = replicate 16 0,
            ks = AES_KEY_zero, iv_set = False, wrapfn = None \<rparr>"
  let ?ops = "[Encrypt_init (Some example_key) 16 (Some [1, 2, 3, 4, 5, 6, 7, 8]) 8,
              Update None 0 32 (Some example_data) 16,
              Final None 0 0,
              Set_ctx_params [(''keylen'', 16)],
              Decrypt_init None 0 (Some [9, 9]) 2]"
  have v: "(128, 64, 32) \<in> set aes_wrap_variants"
    by (simp add: aes_wrap_variants_def AES_WRAP_PAD_IVLEN_def)
  have n: "aes_wrap_newctx True 128 64 32 0x10002 0 = Some ?c0"
    by (rule newctx_128_wrappad)
  have "\<exists>c. run (key_wrap_transform example_block) example_locate example_get_size_t ?c0 ?ops = Some c"
    by (simp add: aes_wrap_einit_def aes_wrap_dinit_def aes_wrap_init_def memcpy_def Let_def
        example_key_def example_data_def aes_wrap_cipher_def aes_wrap_cipher_internal_def
        aes_wrap_final_def aes_wrap_set_ctx_params_def example_locate_def
        example_get_size_t_def AES_set_encrypt_key_def)
  then obtain c where
    r: "run (key_wrap_transform example_block) example_locate example_get_size_t ?c0 ?ops = Some c" ..
  from pad_fixed_at_creation [OF v n r] have "pad c = pad ?c0"
    by (simp only:)
  then show ?thesis
    by (simp del: run.simps add: n r)
qed

section \<open>Parameters, direction and the final call\<close>

text \<open>
  Claim C7. A set-parameters call whose key-length parameter differs from the key
  length of the session returns 0 after raising \<open>PROV_R_INVALID_KEY_LENGTH\<close>; a call
  whose key-length parameter equals it, or that has no key-length parameter, returns 1.
  In all three cases the session is returned as it was.
\<close>

theorem aes_wrap_set_ctx_params_key_length:
  "(locate_keylen params = Some p \<and> get_size_t p = Some k \<and> k \<noteq> keylen vctx \<longrightarrow>
      aes_wrap_set_ctx_params locate_keylen get_size_t vctx params =
        (0, vctx, [PROV_R_INVALID_KEY_LENGTH])) \<and>
   (locate_keylen params = Some p \<and> get_size_t p = Some (keylen vctx) \<longrightarrow>
      aes_wrap_set_ctx_params locate_keylen get_size_t vctx params = (1, vctx, [])) \<and>
   (locate_keylen params = None \<longrightarrow>
      aes_wrap_set_ctx_params locate_keylen get_size_t vctx params = (1, vctx, []))"
  by (simp add: aes_wrap_set_ctx_params_def)

theorem aes_wrap_set_ctx_params_key_length_witness:
  "aes_wrap_set_ctx_params example_locate example_get_size_t example_session
     [(''ivlen'', 8), (''keylen'', 32)] = (0, example_session, [PROV_R_INVALID_KEY_LENGTH]) \<and>
   aes_wrap_set_ctx_params example_locate example_get_size_t example_session
     [(''keylen'', 16)] = (1, example_session, []) \<and>
   aes_wrap_set_ctx_params example_locate example_get_size_t example_session
     [(''ivlen'', 8)] = (1, example_session, [])"
proof -
  have a: "example_locate [(''ivlen'', 8), (''keylen'', 32)] = Some (''keylen'', 32)"
    and b: "example_locate [(''keylen'', 16)] = Some (''keylen'', 16)"
    and c: "example_locate [(''ivlen'', 8)] = None"
    by (simp_all add: example_locate_def)
  have k: "keylen example_session = 16" by (simp add: example_session_def)
  have g: "\<And>s v. example_get_size_t (s, v) = Some v" by (simp add: example_get_size_t_def)
  from aes_wrap_set_ctx_params_key_length
    [of example_locate "[(''ivlen'', 8), (''keylen'', 32)]" "(''keylen'', 32)"
      example_get_size_t 32 example_session]
  have 1: "aes_wrap_set_ctx_params example_locate example_get_size_t example_session
     [(''ivlen'', 8), (''keylen'', 32)] = (0, example_session, [PROV_R_INVALID_KEY_LENGTH])"
    by (simp add: a g k)
  from aes_wrap_set_ctx_params_key_length
    [of example_locate "[(''keylen'', 16)]" "(''keylen'', 16)"
      example_get_size_t 32 example_session]
  have 2: "aes_wrap_set_ctx_params example_locate example_get_size_t example_session
     [(''keylen'', 16)] = (1, example_session, [])"
    by (simp add: b g k)
  from aes_wrap_set_ctx_params_key_length
    [of example_locate "[(''ivlen'', 8)]" "(''keylen'', 16)"
      example_get_size_t 32 example_session]
  have 3: "aes_wrap_set_ctx_params example_locate example_get_size_t example_session
     [(''ivlen'', 8)] = (1, example_session, [])"
    by (simp add: c)
  from 1 2 3 show ?thesis by simp
qed

lemma run_enc: "run W L G ctx xs = Some ctx' \<Longrightarrow> enc ctx' = direction_after (enc ctx) xs"
proof (induction xs arbitrary: ctx)
  case Nil
  then show ?case by simp
next
  case (Cons x xs)
  then obtain c1 where d: "dispatch W L G ctx x = Some c1" and r: "run W L G c1 xs = Some ctx'"
    by (auto split: option.splits)
  from Cons.IH [OF r] dispatch_enc [OF d] show ?case
    by (subst direction_after_Cons) simp
qed

text \<open>
  Claim C8, as amended. A new session has the direction flag clear, and every init
  call sets it to the direction of its entry point (set by the encrypt init, clear by
  the decrypt init); update, final and set-parameters calls keep it. So after any
  sequence of calls the direction is that of the last init call, and that of the new
  session when there was none.
\<close>

theorem direction_set_by_last_init:
  assumes "aes_wrap_newctx mem kbits blkbits ivbits mode' flags' = Some c0"
    and "run W L G c0 ops = Some c"
  shows "\<not> enc c0 \<and> enc c = direction_after (enc c0) ops"
proof -
  from assms(1) have "\<not> enc c0"
    by (auto simp: aes_wrap_newctx_def OPENSSL_zalloc_def cipher_generic_initkey_def Let_def
        split: if_splits)
  with run_enc [OF assms(2)] show ?thesis by simp
qed

text \<open>
  The direction is not fixed at construction: the new 128-bit session below decrypts,
  encrypts after an encrypt init and decrypts again after a decrypt init.
\<close>

theorem direction_fixed_counterexample:
  "aes_wrap_newctx True 128 64 64 0x10002 0 = Some example_session \<and>
   enc example_session = False \<and>
   aes_wrap_einit example_session (Some example_key) 16 None 0
     = Some (1, example_wrap_session, []) \<and>
   enc example_wrap_session = True \<and>
   aes_wrap_dinit example_wrap_session None 0 None 0
     = Some (1, example_wrap_session
                  \<lparr> enc := False, block := Some AES_decrypt, wrapfn := Some CRYPTO_128_unwrap \<rparr>,
             []) \<and>
   enc (example_wrap_session
          \<lparr> enc := False, block := Some AES_decrypt, wrapfn := Some CRYPTO_128_unwrap \<rparr>) = False"
  by (simp add: newctx_128_wrap aes_wrap_einit_def aes_wrap_dinit_def aes_wrap_init_def
      Let_def example_key_def example_session_def example_wrap_session_def
      AES_set_encrypt_key_def)

theorem direction_set_by_last_init_witness:
  "map_option enc
     (do { c0 \<leftarrow> aes_wrap_newctx True 128 64 64 0x10002 0;
           run (key_wrap_transform example_block) example_locate example_get_size_t c0
             [Decrypt_init (Some example_key) 16 None 0,
              Final None 0 0,
              Encrypt_init None 0 None 0,
              Set_ctx_params [(''keylen'', 16)]] })
   = Some True"
proof -
  let ?ops = "[Decrypt_init (Some example_key) 16 None 0,
              Final None 0 0,
              Encrypt_init None 0 None 0,
              Set_ctx_params [(''keylen'', 16)]]"
  have n: "aes_wrap_newctx True 128 64 64 0x10002 0 = Some example_session"
    by (simp add: newctx_128_wrap example_session_def)
  have "\<exists>c. run (key_wrap_transform example_block) example_locate example_get_size_t
              example_session ?ops = Some c"
    by (simp add: aes_wrap_einit_def aes_wrap_dinit_def aes_wrap_init_def Let_def
        example_key_def example_session_def aes_wrap_final_def aes_wrap_set_ctx_params_def
        example_locate_def example_get_size_t_def)
  then obtain c where
    r: "run (key_wrap_transform example_block) example_locate example_get_size_t
          example_session ?ops = Some c" ..
  from direction_set_by_last_init [OF n r] show ?thesis
    by (simp del: run.simps add: n r)
qed

text \<open>
  Claim C9. The final call returns 1 and reports zero bytes written, for every session,
  output region and capacity; the session and the output region are returned as they
  were.
\<close>

theorem aes_wrap_final_no_effect:
  "aes_wrap_final vctx out outl outsize = (1, vctx, out, 0)"
  by (simp add: aes_wrap_final_def)

text \<open>
  Claim C10. An init call that supplies an IV (within the bounds of its source and of
  the IV buffer) and a key of the wrong length returns 0 after raising
  \<open>PROV_R_INVALID_KEY_LENGTH\<close>, and the session it leaves behind has the direction,
  the block function and the transform of the call, the IV length of the call, the
  supplied bytes at the start of the IV buffer and the IV-set flag raised.
\<close>

theorem aes_wrap_init_not_atomic:
  assumes "keylen' \<noteq> keylen vctx"
    and "unat ivlen' \<le> length src" and "unat ivlen' \<le> length (iv vctx)"
  shows "aes_wrap_init vctx (Some userKey) keylen' (Some src) ivlen' enc' =
           Some (0,
                 vctx \<lparr> enc := bit enc' 0,
                        block := Some (if enc' \<noteq> 0 then AES_encrypt else AES_decrypt),
                        wrapfn := Some (if pad vctx
                                        then (if enc' \<noteq> 0 then CRYPTO_128_wrap_pad
                                              else CRYPTO_128_unwrap_pad)
                                        else (if enc' \<noteq> 0 then CRYPTO_128_wrap
                                              else CRYPTO_128_unwrap)),
                        ivlen := ivlen',
                        iv := take (unat ivlen') src @ drop (unat ivlen') (iv vctx),
                        iv_set := True \<rparr>,
                 [PROV_R_INVALID_KEY_LENGTH])"
  using assms
  by (simp add: aes_wrap_init_def Let_def memcpy_def)

theorem aes_wrap_init_not_atomic_witness:
  "map_option (\<lambda>(r, ctx, errs).
       (r, enc ctx, block ctx, wrapfn ctx, ivlen ctx, iv ctx, iv_set ctx, ks ctx, errs))
     (aes_wrap_init example_session (Some (example_key @ example_key)) 32
        (Some [1, 2, 3, 4]) 4 1)
   = Some (0, True, Some AES_encrypt, Some CRYPTO_128_wrap, 4,
           [1, 2, 3, 4] @ replicate 12 0, True, AES_KEY_zero,
           [PROV_R_INVALID_KEY_LENGTH])"
proof -
  have k: "(32 :: size_t) \<noteq> keylen example_session"
    and l: "unat (4 :: size_t) \<le> length [1, 2, 3, 4 :: byte]"
    and b: "unat (4 :: size_t) \<le> length (iv example_session)"
    by (simp_all add: example_session_def)
  from aes_wrap_init_not_atomic [OF k l b, of "example_key @ example_key" 1]
  show ?thesis
    by (simp add: example_session_def)
qed

section \<open>Word arithmetic of the size query\<close>

lemma and7_iff: "((x :: size_t) AND 7 = 0) = (unat x mod 8 = 0)"
proof -
  have m: "(7 :: size_t) = mask 3" by (simp add: mask_eq_decr_exp)
  have "unat (x AND 7) = unat x mod 8"
    by (simp add: m take_bit_eq_mod unat_mod flip: take_bit_eq_mask)
  then show ?thesis by (metis unsigned_eq_0_iff)
qed

lemma unat_size_t_0: "((x :: size_t) = 0) = (unat x = 0)"
  by (simp add: unsigned_eq_0_iff)

lemma ucast_size_t_int: "(ucast (x :: size_t) :: c_int) = of_nat (unat x)"
  by simp

lemma sint_of_nat_small: "k < 2 ^ 31 \<Longrightarrow> sint (of_nat k :: c_int) = int k"
  by (simp add: signed_of_nat signed_take_bit_int_eq_self)

lemma unat_add_small: "unat (x :: size_t) + k < 2 ^ 64 \<Longrightarrow> unat (x + of_nat k) = unat x + k"
proof -
  assume a: "unat x + k < 2 ^ 64"
  then have k: "unat (of_nat k :: size_t) = k" by (simp add: unat_of_nat)
  with a have "unat x + unat (of_nat k :: size_t) < 2 ^ LENGTH(64)" by simp
  then have "unat (x + of_nat k) = unat x + unat (of_nat k :: size_t)"
    by (simp only: unat_add_lem)
  with k show ?thesis by simp
qed

lemma scast_of_nat_small: "k < 2 ^ 31 \<Longrightarrow> (scast (of_nat k :: c_int) :: size_t) = of_nat k"
  by (simp add: scast_eq sint_of_nat_small)

lemma unat_roundup:
  assumes "unat (x :: size_t) + 7 < 2 ^ 64"
  shows "unat ((x + 7) div 8 * 8) = roundUp8 (unat x)"
proof -
  have a: "unat (x + 7) = unat x + 7"
    using unat_add_small [of x 7] assms by simp
  have d: "unat ((x + 7) div 8) = (unat x + 7) div 8"
    by (simp add: unat_div a)
  have "unat ((x + 7) div 8) * unat (8 :: size_t) < 2 ^ LENGTH(64)"
    using assms by (simp add: d)
  then have "unat ((x + 7) div 8 * 8) = unat ((x + 7) div 8) * unat (8 :: size_t)"
    by (simp only: unat_mult_lem)
  then show ?thesis by (simp add: d roundUp8_def)
qed

lemma unat_sub8: "16 \<le> unat (x :: size_t) \<Longrightarrow> unat (x - 8) = unat x - 8"
  by (subst unat_sub) (simp_all add: word_le_nat_alt)

lemma example_wrap_session_init:
  "aes_wrap_einit example_session (Some example_key) 16 None 0 = Some (1, example_wrap_session, [])"
  by (simp add: aes_wrap_einit_def aes_wrap_init_def Let_def example_session_def
      example_wrap_session_def example_key_def AES_set_encrypt_key_def)

lemma example_unwrap_session_init:
  "aes_wrap_dinit example_session (Some example_key) 16 None 0 = Some (1, example_unwrap_session, [])"
  by (simp add: aes_wrap_dinit_def aes_wrap_init_def Let_def example_session_def
      example_unwrap_session_def example_key_def AES_set_decrypt_key_def)

section \<open>The update function\<close>

text \<open>
  Beyond the \<open>int\<close> range the number wraps around: the query for an input of
  \<open>2^31 - 8\<close> bytes to the wrapping session returns \<open>- 2^31\<close>, and the update function
  reports \<open>2^64 - 2^31\<close>.
\<close>

lemma query_beyond_int_range:
  "aes_wrap_cipher_internal W example_wrap_session None (Some src) 0x7FFFFFF8
     = Some (0x80000000, None) \<and>
   sint (0x80000000 :: c_int) = - 2147483648 \<and>
   aes_wrap_cipher W example_wrap_session None outl 0x7FFFFFF8 (Some src) 0x7FFFFFF8
     = Some (1, None, 0xFFFFFFFF80000000, [])"
  by (simp add: aes_wrap_cipher_def aes_wrap_cipher_internal_def example_wrap_session_def
      Let_def)

lemma example_session_new:
  "aes_wrap_newctx True 128 64 64 0x10002 0 = Some example_session"
  by (simp add: newctx_128_wrap example_session_def)

lemma aes_wrap_cipher_internal_invalid_length:
  assumes "\<not> valid_input_length (enc vctx) (pad vctx) (unat inlen)"
  shows "aes_wrap_cipher_internal W vctx out (Some src) inlen = Some (- 1, out)"
proof -
  have "(inlen = 0) = (unat inlen = 0)" by (rule unat_size_t_0)
  moreover have "(inlen < 16) = (unat inlen < 16)" by (simp add: word_less_nat_alt)
  ultimately show ?thesis
    using assms
    by (auto simp: aes_wrap_cipher_internal_def Let_def valid_input_length_def and7_iff
        split: if_splits)
qed

lemma aes_wrap_cipher_invalid_length:
  assumes "\<not> valid_input_length (enc vctx) (pad vctx) (unat inl)" and "inl \<le> outsize"
  shows "aes_wrap_cipher W vctx out outl outsize (Some src) inl = Some (1, out, - 1, [])"
  using assms(2)
  by (simp add: aes_wrap_cipher_def aes_wrap_cipher_internal_invalid_length [OF assms(1)]
      scast_n1 Let_def)

text \<open>
  Claim C2. The inner processing function returns -1 for an invalid input length, but
  the update function stores that result in a \<open>size_t\<close> and only tests it against 0.
  For a 128-bit session without padding, created and then initialised for wrapping or
  for unwrapping: with a 7-byte input to the wrapping session, a 15-byte input to the
  unwrapping session or an empty input to either, and enough stated capacity, the
  update function returns 1 and reports the output length \<open>2^64 - 1\<close>.
\<close>

theorem invalid_length_reported_as_success:
  "aes_wrap_newctx True 128 64 64 0x10002 0 = Some example_session \<and>
   aes_wrap_einit example_session (Some example_key) 16 None 0
     = Some (1, example_wrap_session, []) \<and>
   aes_wrap_dinit example_session (Some example_key) 16 None 0
     = Some (1, example_unwrap_session, []) \<and>
   aes_wrap_cipher_internal W example_wrap_session (Some (replicate 32 0))
     (Some [1, 2, 3, 4, 5, 6, 7]) 7
     = Some (- 1, Some (replicate 32 0)) \<and>
   aes_wrap_cipher W example_wrap_session (Some (replicate 32 0)) 0 32
     (Some [1, 2, 3, 4, 5, 6, 7]) 7
     = Some (1, Some (replicate 32 0), 0xFFFFFFFFFFFFFFFF, []) \<and>
   aes_wrap_cipher W example_unwrap_session (Some (replicate 32 0)) 0 32
     (Some [1, 2, 3, 4, 5, 6, 7, 8, 9, 10, 11, 12, 13, 14, 15]) 15
     = Some (1, Some (replicate 32 0), 0xFFFFFFFFFFFFFFFF, []) \<and>
   aes_wrap_cipher W example_wrap_session (Some (replicate 32 0)) 0 32 (Some []) 0
     = Some (1, Some (replicate 32 0), 0xFFFFFFFFFFFFFFFF, []) \<and>
   aes_wrap_cipher W example_unwrap_session (Some (replicate 32 0)) 0 32 (Some []) 0
     = Some (1, Some (replicate 32 0), 0xFFFFFFFFFFFFFFFF, [])"
  by (simp add: example_session_new example_wrap_session_init example_unwrap_session_init)
    (simp add: aes_wrap_cipher_def aes_wrap_cipher_internal_def example_wrap_session_def
      example_unwrap_session_def scast_n1)

text \<open>
  Claim C5. The update function compares the stated capacity with the input length,
  not with the output length. For a 16-byte input to a 128-bit session without padding,
  created and initialised for wrapping, the query returns 24, yet a call with capacity
  16 and any output region does not fail with
  \<open>PROV_R_OUTPUT_BUFFER_TOO_SMALL\<close>: it runs the transform and stores what the transform
  has written.
\<close>

theorem short_output_buffer_not_rejected:
  "aes_wrap_newctx True 128 64 64 0x10002 0 = Some example_session \<and>
   aes_wrap_einit example_session (Some example_key) 16 None 0
     = Some (1, example_wrap_session, []) \<and>
   aes_wrap_cipher_internal W example_wrap_session None (Some example_data) 16 = Some (24, None) \<and>
   aes_wrap_cipher W example_wrap_session (Some dst) outl 16 (Some example_data) 16
     \<noteq> Some (- 1, Some dst, outl, [PROV_R_OUTPUT_BUFFER_TOO_SMALL]) \<and>
   aes_wrap_cipher W example_wrap_session (Some dst) outl 16 (Some example_data) 16 =
     (let (rv, written) =
            W CRYPTO_128_wrap (AES_KEY_enc example_key 128) None example_data 16 AES_encrypt
      in case store dst written of
           None \<Rightarrow> None
         | Some dst' \<Rightarrow>
             if scast (if rv \<noteq> 0 then ucast rv else - 1 :: c_int) = (0 :: size_t)
             then Some (- 1, Some dst', outl, [])
             else Some (1, Some dst', scast (if rv \<noteq> 0 then ucast rv else - 1 :: c_int), []))"
proof -
  have q: "aes_wrap_cipher_internal W example_wrap_session None (Some example_data) 16 = Some (24, None)"
    by (simp add: aes_wrap_cipher_internal_def example_wrap_session_def)
  have n: "aes_wrap_cipher W example_wrap_session (Some dst) outl 16 (Some example_data) 16
     \<noteq> Some (- 1, Some dst, outl, [PROV_R_OUTPUT_BUFFER_TOO_SMALL])"
    by (simp add: aes_wrap_cipher_def Let_def split: option.splits)
  have e: "aes_wrap_cipher W example_wrap_session (Some dst) outl 16 (Some example_data) 16 =
     (let (rv, written) =
            W CRYPTO_128_wrap (AES_KEY_enc example_key 128) None example_data 16 AES_encrypt
      in case store dst written of
           None \<Rightarrow> None
         | Some dst' \<Rightarrow>
             if scast (if rv \<noteq> 0 then ucast rv else - 1 :: c_int) = (0 :: size_t)
             then Some (- 1, Some dst', outl, [])
             else Some (1, Some dst', scast (if rv \<noteq> 0 then ucast rv else - 1 :: c_int), []))"
    by (simp add: aes_wrap_cipher_def aes_wrap_cipher_internal_def example_wrap_session_def
        example_data_def Let_def split: prod.splits option.splits)
  from example_session_new example_wrap_session_init q n e show ?thesis
    by (simp only:) simp
qed

section \<open>The transform and its inverse\<close>

lemma fold_undo:
  assumes "I s" and "\<And>x s. x \<in> set xs \<Longrightarrow> I s \<Longrightarrow> I (f x s) \<and> g x (f x s) = s"
  shows "fold g (rev xs) (fold f xs s) = s"
  using assms by (induction xs arbitrary: s) auto

lemma fold_invariant:
  assumes "I s" and "\<And>x s. x \<in> set xs \<Longrightarrow> I s \<Longrightarrow> I (f x s)"
  shows "I (fold f xs s)"
  using assms by (induction xs arbitrary: s) auto

lemma length_be_bytes [simp]: "length (be_bytes k t) = k"
  by (induction k t rule: be_bytes.induct) auto

lemma length_xor_bytes [simp]: "length (xor_bytes a b) = min (length a) (length b)"
  by (simp add: xor_bytes_def)

lemma xor_bytes_cancel: "length a = length b \<Longrightarrow> xor_bytes (xor_bytes a b) b = a"
proof (induction a arbitrary: b)
  case Nil
  then show ?case by (simp add: xor_bytes_def)
next
  case (Cons x xs)
  then obtain y ys where b: "b = y # ys" by (cases b) auto
  with Cons show ?case by (simp add: xor_bytes_def bit.xor_left_self xor.assoc)
qed

lemma unwrap_schedule_rev: "unwrap_schedule n = rev (wrap_schedule n)"
  by (simp add: unwrap_schedule_def wrap_schedule_def rev_concat rev_map o_def)

lemma wrap_schedule_index: "(j, i) \<in> set (wrap_schedule n) \<Longrightarrow> 1 \<le> i \<and> i \<le> n"
  by (auto simp: wrap_schedule_def)

lemma wrap_step_undo:
  assumes len: "\<And>b. length b = 16 \<Longrightarrow> length (E b) = 16"
    and inv: "\<And>b. length b = 16 \<Longrightarrow> D (E b) = b"
    and st: "kw_state n s" and i: "1 \<le> i" "i \<le> n"
  shows "kw_state n (wrap_step E n (j, i) s) \<and> unwrap_step D n (j, i) (wrap_step E n (j, i) s) = s"
proof -
  obtain A R where s: "s = (A, R)" by (cases s)
  from st s have A: "length A = 8" and R: "length R = n" and Rs: "\<forall>r\<in>set R. length r = 8"
    by (auto simp: kw_state_def)
  from i R have idx: "i - 1 < length R" by simp
  then have ri: "length (R ! (i - 1)) = 8" using Rs by simp
  define B where "B = E (A @ R ! (i - 1))"
  have lB: "length B = 16" unfolding B_def using A ri by (intro len) simp
  have DB: "D B = A @ R ! (i - 1)" unfolding B_def using A ri by (intro inv) simp
  have step: "wrap_step E n (j, i) (A, R) =
      (xor_bytes (take 8 B) (be_bytes 8 (n * j + i)), R[i - 1 := drop 8 B])"
    by (simp add: wrap_step_def B_def Let_def)
  have cancel: "xor_bytes (xor_bytes (take 8 B) (be_bytes 8 (n * j + i))) (be_bytes 8 (n * j + i)) = take 8 B"
    using lB by (intro xor_bytes_cancel) simp
  have st': "kw_state n (wrap_step E n (j, i) (A, R))"
    using lB R Rs by (auto simp: step kw_state_def dest!: set_update_subset_insert [THEN subsetD])
  have "unwrap_step D n (j, i) (wrap_step E n (j, i) (A, R)) = (A, R)"
    using idx A lB by (simp add: step unwrap_step_def Let_def cancel DB)
  with st' show ?thesis by (simp add: s)
qed

lemma chunks_concat:
  "length bs = 8 * n \<Longrightarrow> concat (chunks n bs) = bs \<and> kw_state n (A, chunks n bs) = (length A = 8)"
proof (induction n arbitrary: bs)
  case 0
  then show ?case by (simp add: kw_state_def)
next
  case (Suc n)
  then have "length (drop 8 bs) = 8 * n" by simp
  from Suc.IH [OF this] Suc.prems show ?case
    by (auto simp: kw_state_def)
qed

lemma chunks_of_concat:
  "length R = n \<Longrightarrow> \<forall>r\<in>set R. length r = 8 \<Longrightarrow> chunks n (concat R) = R"
  by (induction R arbitrary: n) auto

lemma length_concat_semiblocks: "\<forall>r\<in>set R. length r = 8 \<Longrightarrow> length (concat R) = 8 * length R"
  by (induction R) auto

lemma semiblocks_concat:
  "\<forall>r\<in>set R. length r = 8 \<Longrightarrow> semiblocks (concat R) = R"
  by (simp add: semiblocks_def chunks_of_concat length_concat_semiblocks)

lemma kw_raw_roundtrip:
  assumes len: "\<And>b. length b = 16 \<Longrightarrow> length (E b) = 16"
    and inv: "\<And>b. length b = 16 \<Longrightarrow> D (E b) = b"
    and A0: "length A0 = 8" and P: "length P = 8 * n" and n: "1 \<le> n"
  shows "length (kw_wrap_raw E A0 P) = 8 * n + 8 \<and> kw_unwrap_raw D (kw_wrap_raw E A0 P) = (A0, P)"
proof -
  have sb: "semiblocks P = chunks n P" using P by (simp add: semiblocks_def)
  from chunks_concat [OF P, of A0] A0
  have cc: "concat (chunks n P) = P" and st0: "kw_state n (A0, chunks n P)" by simp_all
  have ln: "length (chunks n P) = n" using st0 by (simp add: kw_state_def)
  show ?thesis
  proof (cases "n = 1")
    case True
    have C: "kw_wrap_raw E A0 P = E (A0 @ P)"
      using True P by (simp add: kw_wrap_raw_def sb Let_def)
    have lC: "length (E (A0 @ P)) = 16" using A0 P True by (intro len) simp
    have lsb: "length (semiblocks (drop 8 (E (A0 @ P)))) = 1"
      using lC by (simp add: semiblocks_def)
    have "concat (semiblocks (drop 8 (E (A0 @ P)))) = drop 8 (E (A0 @ P))"
      using lC chunks_concat [of "drop 8 (E (A0 @ P))" 1 A0] by (simp add: semiblocks_def)
    moreover have "D (E (A0 @ P)) = A0 @ P" using A0 P True by (intro inv) simp
    ultimately show ?thesis
      using lC A0 True by (simp add: C kw_unwrap_raw_def lsb Let_def)
  next
    case False
    define s where "s = fold (wrap_step E n) (wrap_schedule n) (A0, chunks n P)"
    have step: "\<And>x t. x \<in> set (wrap_schedule n) \<Longrightarrow> kw_state n t \<Longrightarrow>
        kw_state n (wrap_step E n x t) \<and> unwrap_step D n x (wrap_step E n x t) = t"
    proof -
      fix x t assume x: "x \<in> set (wrap_schedule n)" and t: "kw_state n t"
      obtain j i where ji: "x = (j, i)" by (cases x)
      with x have "1 \<le> i \<and> i \<le> n" by (auto dest: wrap_schedule_index)
      then show "kw_state n (wrap_step E n x t) \<and> unwrap_step D n x (wrap_step E n x t) = t"
        unfolding ji using wrap_step_undo [OF len inv t] by blast
    qed
    have sts: "kw_state n s" unfolding s_def
      by (rule fold_invariant [where I = "kw_state n", OF st0]) (use step in blast)
    have undo: "fold (unwrap_step D n) (unwrap_schedule n) s = (A0, chunks n P)"
      unfolding s_def unwrap_schedule_rev
      by (rule fold_undo [where I = "kw_state n", OF st0]) (use step in blast)
    obtain A R where s: "s = (A, R)" by (cases s)
    from sts s have A: "length A = 8" and R: "length R = n" and Rs: "\<forall>r\<in>set R. length r = 8"
      by (auto simp: kw_state_def)
    have lcR: "length (concat R) = 8 * n" using R Rs by (simp add: length_concat_semiblocks)
    have C: "kw_wrap_raw E A0 P = A @ concat R"
      using False s by (simp add: kw_wrap_raw_def sb ln Let_def s_def [symmetric])
    have "kw_unwrap_raw D (A @ concat R) = (A0, P)"
      using False A R undo
      by (simp add: kw_unwrap_raw_def semiblocks_concat [OF Rs] Let_def s cc)
    then show ?thesis using A lcR by (simp add: C)
  qed
qed

lemma unat_of_nat_size_t: "k < 2 ^ 64 \<Longrightarrow> unat (of_nat k :: size_t) = k"
  by (simp add: unat_of_nat)

lemma kw_wrap_then_unwrap:
  assumes len: "\<And>b. length b = 16 \<Longrightarrow> length (B AES_encrypt ke b) = 16"
    and inv: "\<And>b. length b = 16 \<Longrightarrow> B AES_decrypt kd (B AES_encrypt ke b) = b"
    and P: "length P = 8 * n" and n: "1 \<le> n" and b: "8 * n + 8 < 2 ^ 64"
    and iv: "case iv' of None \<Rightarrow> True | Some v \<Rightarrow> 8 \<le> length v"
  shows "\<exists>C. kw_wrap B ke iv' P (of_nat (8 * n)) AES_encrypt = (of_nat (8 * n + 8), C) \<and>
             length C = 8 * n + 8 \<and>
             kw_unwrap B kd iv' C (of_nat (8 * n + 8)) AES_decrypt = (of_nat (8 * n), P)"
proof -
  define A0 where "A0 = (case iv' of None \<Rightarrow> default_iv | Some v \<Rightarrow> take 8 v)"
  have A0: "length A0 = 8" using iv by (auto simp: A0_def default_iv_def split: option.splits)
  define C where "C = kw_wrap_raw (B AES_encrypt ke) A0 P"
  from kw_raw_roundtrip [of "B AES_encrypt ke" "B AES_decrypt kd", OF len inv A0 P n]
  have lC: "length C = 8 * n + 8" and rt: "kw_unwrap_raw (B AES_decrypt kd) C = (A0, P)"
    by (simp_all add: C_def)
  have u1: "unat (of_nat (8 * n) :: size_t) = 8 * n" using b by (intro unat_of_nat_size_t) simp
  have u2: "unat (of_nat (8 * n + 8) :: size_t) = 8 * n + 8" using b by (intro unat_of_nat_size_t)
  have w: "kw_wrap B ke iv' P (of_nat (8 * n)) AES_encrypt = (of_nat (8 * n + 8), C)"
    using n P lC unfolding kw_wrap_def u1 by (simp add: Let_def A0_def [symmetric] C_def [symmetric])
  have u: "kw_unwrap B kd iv' C (of_nat (8 * n + 8)) AES_decrypt = (of_nat (8 * n), P)"
    using n P lC rt unfolding kw_unwrap_def u2 by (simp add: Let_def A0_def [symmetric])
  from w lC u show ?thesis by blast
qed

lemma aes_wrap_cipher_internal_call:
  assumes f: "wrapfn vctx = Some f" and blk: "block vctx = Some blk"
    and nz: "unat inlen \<noteq> 0" and m8: "unat inlen mod 8 = 0"
    and dec: "enc vctx \<or> 16 \<le> unat inlen"
    and src: "unat inlen \<le> length src"
    and W: "W f (ks vctx) (if iv_set vctx then Some (iv vctx) else None) src inlen blk = (rv, written)"
    and dst: "length written \<le> length dst"
  shows "aes_wrap_cipher_internal W vctx (Some dst) (Some src) inlen =
           Some (if rv \<noteq> 0 then ucast rv else - 1, Some (written @ drop (length written) dst))"
proof -
  have a: "inlen \<noteq> 0" using nz by (simp add: unat_size_t_0)
  have b: "inlen AND 7 = 0" using m8 by (simp add: and7_iff)
  have c: "enc vctx \<or> \<not> inlen < 16" using dec by (auto simp: word_less_nat_alt)
  have d: "\<not> length src < unat inlen" using src by simp
  have e: "store dst written = Some (written @ drop (length written) dst)"
    using dst by (simp add: store_def)
  from c show ?thesis
    by (auto simp: aes_wrap_cipher_internal_def Let_def f blk a b d e W)
qed

lemma ucast_of_nat_size_t: "k < 2 ^ 64 \<Longrightarrow> (ucast (of_nat k :: size_t) :: c_int) = of_nat k"
proof -
  assume k: "k < 2 ^ 64"
  have "(ucast (of_nat k :: size_t) :: c_int) = of_nat (unat (of_nat k :: size_t))"
    by simp
  also have "\<dots> = of_nat k"
    by (simp only: unat_of_nat_size_t [OF k])
  finally show ?thesis .
qed

text \<open>
  Claim C3. For each key size of 128, 192 and 256 bits, a key of that size and a
  block cipher whose decryption under the key inverts its encryption, take a new
  session of the variant without padding and initialise it once for encryption and once
  for decryption, with the same key and the same IV argument (none, or a caller IV that
  fits the IV buffer). For every plaintext \<open>P\<close> of \<open>8 * n\<close> bytes, \<open>n \<ge> 2\<close>, processing
  \<open>P\<close> in the encrypting session writes \<open>8 * n + 8\<close> bytes \<open>C\<close>, and processing \<open>C\<close> in
  the decrypting session writes exactly \<open>P\<close>. When the lengths fit an \<open>int\<close> and the
  stated capacities are at least the input lengths, the update function reports success
  and these output lengths.
\<close>

theorem plain_wrap_unwrap_roundtrip:
  fixes B :: block_semantics
  assumes kbits: "kbits \<in> {128, 192, 256}"
    and key: "length key = unat kbits div 8"
    and len: "\<And>b. length b = 16 \<Longrightarrow>
                length (B AES_encrypt (AES_set_encrypt_key key (ucast kbits)) b) = 16"
    and inv: "\<And>b. length b = 16 \<Longrightarrow>
                B AES_decrypt (AES_set_decrypt_key key (ucast kbits))
                  (B AES_encrypt (AES_set_encrypt_key key (ucast kbits)) b) = b"
    and iv: "case iv' of None \<Rightarrow> True
             | Some v \<Rightarrow> unat ivlen' \<le> length v \<and> unat ivlen' \<le> GENERIC_BLOCK_SIZE"
    and P: "length P = 8 * n" and n: "2 \<le> n" and b: "8 * n + 8 < 2 ^ 64"
    and cb: "8 * n + 8 \<le> length cbuf" and pb: "8 * n \<le> length pbuf"
  shows "\<exists>c0 cE cD C.
      aes_wrap_newctx True kbits 64 (AES_WRAP_NOPAD_IVLEN * 8) mode' flags' = Some c0 \<and>
      aes_wrap_einit c0 (Some key) (kbits div 8) iv' ivlen' = Some (1, cE, []) \<and>
      aes_wrap_cipher_internal (key_wrap_transform B) cE (Some cbuf) (Some P) (of_nat (8 * n))
        = Some (of_nat (8 * n + 8), Some (C @ drop (8 * n + 8) cbuf)) \<and>
      length C = 8 * n + 8 \<and>
      aes_wrap_dinit c0 (Some key) (kbits div 8) iv' ivlen' = Some (1, cD, []) \<and>
      aes_wrap_cipher_internal (key_wrap_transform B) cD (Some pbuf) (Some C) (of_nat (8 * n + 8))
        = Some (of_nat (8 * n), Some (P @ drop (8 * n) pbuf)) \<and>
      (8 * n + 8 < 2 ^ 31 \<and> of_nat (8 * n) \<le> csize \<and> of_nat (8 * n + 8) \<le> psize \<longrightarrow>
         aes_wrap_cipher (key_wrap_transform B) cE (Some cbuf) outl csize (Some P) (of_nat (8 * n))
           = Some (1, Some (C @ drop (8 * n + 8) cbuf), of_nat (8 * n + 8), []) \<and>
         aes_wrap_cipher (key_wrap_transform B) cD (Some pbuf) outl psize (Some C)
             (of_nat (8 * n + 8))
           = Some (1, Some (P @ drop (8 * n) pbuf), of_nat (8 * n), []))"
proof -
  define c0 where "c0 = \<lparr> block = None, mode = mode', keylen = kbits div 8, ivlen = 8,
      blocksize = 8, pad = False, enc = False, flags = flags', iv = replicate 16 0,
      ks = AES_KEY_zero, iv_set = False, wrapfn = None \<rparr>"
  have new: "aes_wrap_newctx True kbits 64 (AES_WRAP_NOPAD_IVLEN * 8) mode' flags' = Some c0"
    by (simp add: aes_wrap_newctx_def OPENSSL_zalloc_def cipher_generic_initkey_def
        AES_WRAP_PAD_IVLEN_def AES_WRAP_NOPAD_IVLEN_def GENERIC_BLOCK_SIZE_def c0_def)
  have bits: "kbits div 8 * 8 = kbits" and klen: "unat (kbits div 8) = unat kbits div 8"
    using kbits by auto
  define ivbuf where "ivbuf = (case iv' of None \<Rightarrow> replicate 16 0
      | Some v \<Rightarrow> take (unat ivlen') v @ drop (unat ivlen') (replicate 16 0))"
  have ivbuf: "length ivbuf = 16"
    using iv by (auto simp: ivbuf_def GENERIC_BLOCK_SIZE_def split: option.splits)
  define c1 where "c1 = (case iv' of None \<Rightarrow> c0
      | Some v \<Rightarrow> c0 \<lparr> ivlen := ivlen', iv := ivbuf, iv_set := True \<rparr>)"
  define cE where "cE = c1 \<lparr> enc := True, block := Some AES_encrypt,
      wrapfn := Some CRYPTO_128_wrap, ks := AES_set_encrypt_key key (ucast kbits) \<rparr>"
  define cD where "cD = c1 \<lparr> enc := False, block := Some AES_decrypt,
      wrapfn := Some CRYPTO_128_unwrap, ks := AES_set_decrypt_key key (ucast kbits) \<rparr>"
  have einit: "aes_wrap_einit c0 (Some key) (kbits div 8) iv' ivlen' = Some (1, cE, [])"
    using iv key
    by (cases iv')
      (simp_all add: aes_wrap_einit_def aes_wrap_init_def Let_def memcpy_def c0_def c1_def
        cE_def ivbuf_def bits klen GENERIC_BLOCK_SIZE_def)
  have dinit: "aes_wrap_dinit c0 (Some key) (kbits div 8) iv' ivlen' = Some (1, cD, [])"
    using iv key
    by (cases iv')
      (simp_all add: aes_wrap_dinit_def aes_wrap_init_def Let_def memcpy_def c0_def c1_def
        cD_def ivbuf_def bits klen GENERIC_BLOCK_SIZE_def)
  define ivarg where "ivarg = (if iv_set c1 then Some (iv c1) else None)"
  have ivarg: "case ivarg of None \<Rightarrow> True | Some v \<Rightarrow> 8 \<le> length v"
    using ivbuf by (cases iv') (simp_all add: ivarg_def c1_def c0_def)
  from n have n1: "1 \<le> n" by simp
  from kw_wrap_then_unwrap [of B "AES_set_encrypt_key key (ucast kbits)"
      "AES_set_decrypt_key key (ucast kbits)", OF len inv P n1 b ivarg]
  obtain C where
    w: "kw_wrap B (AES_set_encrypt_key key (ucast kbits)) ivarg P (of_nat (8 * n)) AES_encrypt
          = (of_nat (8 * n + 8), C)"
    and lC: "length C = 8 * n + 8"
    and u: "kw_unwrap B (AES_set_decrypt_key key (ucast kbits)) ivarg C (of_nat (8 * n + 8))
          AES_decrypt = (of_nat (8 * n), P)"
    by blast
  have u1: "unat (of_nat (8 * n) :: size_t) = 8 * n" using b by (intro unat_of_nat_size_t) simp
  have u2: "unat (of_nat (8 * n + 8) :: size_t) = 8 * n + 8" using b by (intro unat_of_nat_size_t)
  have nz1: "(of_nat (8 * n + 8) :: size_t) \<noteq> 0" unfolding unat_size_t_0 u2 by simp
  have nz2: "(of_nat (8 * n) :: size_t) \<noteq> 0" using n unfolding unat_size_t_0 u1 by simp
  have c1: "(ucast (of_nat (8 * n + 8) :: size_t) :: c_int) = of_nat (8 * n + 8)"
    using b by (intro ucast_of_nat_size_t)
  have c2: "(ucast (of_nat (8 * n) :: size_t) :: c_int) = of_nat (8 * n)"
    using b by (intro ucast_of_nat_size_t) simp
  have "aes_wrap_cipher_internal (key_wrap_transform B) cE (Some cbuf) (Some P) (of_nat (8 * n))
        = Some (if (of_nat (8 * n + 8) :: size_t) \<noteq> 0 then ucast (of_nat (8 * n + 8) :: size_t) else - 1,
                Some (C @ drop (length C) cbuf))"
  proof (rule aes_wrap_cipher_internal_call)
    show "wrapfn cE = Some CRYPTO_128_wrap" "block cE = Some AES_encrypt"
      by (simp_all add: cE_def)
    show "unat (of_nat (8 * n) :: size_t) \<noteq> 0" "unat (of_nat (8 * n) :: size_t) mod 8 = 0"
      using n unfolding u1 by simp_all
    show "enc cE \<or> 16 \<le> unat (of_nat (8 * n) :: size_t)" by (simp add: cE_def)
    show "unat (of_nat (8 * n) :: size_t) \<le> length P" unfolding u1 by (simp add: P)
    show "key_wrap_transform B CRYPTO_128_wrap (ks cE) (if iv_set cE then Some (iv cE) else None)
            P (of_nat (8 * n)) AES_encrypt = (of_nat (8 * n + 8), C)"
      using w by (auto simp: key_wrap_transform_def cE_def ivarg_def)
    show "length C \<le> length cbuf" using lC cb by simp
  qed
  then have enc_call:
    "aes_wrap_cipher_internal (key_wrap_transform B) cE (Some cbuf) (Some P) (of_nat (8 * n))
        = Some (of_nat (8 * n + 8), Some (C @ drop (8 * n + 8) cbuf))"
    by (simp only: nz1 c1 lC if_True not_False_eq_True)
  have "aes_wrap_cipher_internal (key_wrap_transform B) cD (Some pbuf) (Some C) (of_nat (8 * n + 8))
        = Some (if (of_nat (8 * n) :: size_t) \<noteq> 0 then ucast (of_nat (8 * n) :: size_t) else - 1,
                Some (P @ drop (length P) pbuf))"
  proof (rule aes_wrap_cipher_internal_call)
    show "wrapfn cD = Some CRYPTO_128_unwrap" "block cD = Some AES_decrypt"
      by (simp_all add: cD_def)
    show "unat (of_nat (8 * n + 8) :: size_t) \<noteq> 0" "unat (of_nat (8 * n + 8) :: size_t) mod 8 = 0"
      unfolding u2 by simp_all
    show "enc cD \<or> 16 \<le> unat (of_nat (8 * n + 8) :: size_t)" using n unfolding u2 by simp
    show "unat (of_nat (8 * n + 8) :: size_t) \<le> length C" unfolding u2 by (simp add: lC)
    show "key_wrap_transform B CRYPTO_128_unwrap (ks cD) (if iv_set cD then Some (iv cD) else None)
            C (of_nat (8 * n + 8)) AES_decrypt = (of_nat (8 * n), P)"
      using u by (auto simp: key_wrap_transform_def cD_def ivarg_def)
    show "length P \<le> length pbuf" using P pb by simp
  qed
  then have dec_call:
    "aes_wrap_cipher_internal (key_wrap_transform B) cD (Some pbuf) (Some C) (of_nat (8 * n + 8))
        = Some (of_nat (8 * n), Some (P @ drop (8 * n) pbuf))"
    by (simp only: nz2 c2 P if_True not_False_eq_True)
  have upd: "aes_wrap_cipher (key_wrap_transform B) cE (Some cbuf) outl csize (Some P) (of_nat (8 * n))
           = Some (1, Some (C @ drop (8 * n + 8) cbuf), of_nat (8 * n + 8), []) \<and>
         aes_wrap_cipher (key_wrap_transform B) cD (Some pbuf) outl psize (Some C)
             (of_nat (8 * n + 8))
           = Some (1, Some (P @ drop (8 * n) pbuf), of_nat (8 * n), [])"
    if small: "8 * n + 8 < 2 ^ 31" and cs: "(of_nat (8 * n) :: size_t) \<le> csize"
      and ps: "(of_nat (8 * n + 8) :: size_t) \<le> psize"
  proof -
    from small have s1: "(scast (of_nat (8 * n + 8) :: c_int) :: size_t) = of_nat (8 * n + 8)"
      by (rule scast_of_nat_small)
    from small have s2: "(scast (of_nat (8 * n) :: c_int) :: size_t) = of_nat (8 * n)"
      by (intro scast_of_nat_small) simp
    from cs have ncs: "\<not> csize < (of_nat (8 * n) :: size_t)" by simp
    from ps have nps: "\<not> psize < (of_nat (8 * n + 8) :: size_t)" by simp
    have "aes_wrap_cipher (key_wrap_transform B) cE (Some cbuf) outl csize (Some P) (of_nat (8 * n))
           = Some (1, Some (C @ drop (8 * n + 8) cbuf), of_nat (8 * n + 8), [])"
      unfolding aes_wrap_cipher_def enc_call
      by (simp only: ncs s1 nz1 if_False Let_def option.case prod.case)
    moreover have "aes_wrap_cipher (key_wrap_transform B) cD (Some pbuf) outl psize (Some C)
             (of_nat (8 * n + 8))
           = Some (1, Some (P @ drop (8 * n) pbuf), of_nat (8 * n), [])"
      unfolding aes_wrap_cipher_def dec_call
      by (simp only: nps s2 nz2 if_False Let_def option.case prod.case)
    ultimately show ?thesis by simp
  qed
  from new einit enc_call lC dinit dec_call upd show ?thesis by blast
qed

lemma length_example_block: "length (example_block f key b) = length b"
  by (cases f) (simp_all add: example_block_def Let_def)

lemma example_block_inverse:
  "schedule_bytes kd = schedule_bytes ke \<Longrightarrow>
     example_block AES_decrypt kd (example_block AES_encrypt ke b) = b"
proof -
  assume k: "schedule_bytes kd = schedule_bytes ke"
  define p where "p = take (length b) (schedule_bytes ke @ replicate (length b) 0)"
  have lp: "length b = length p" by (simp add: p_def)
  have m: "map (\<lambda>x. x - 1) (map (\<lambda>x. x + 1) (xor_bytes b p)) = xor_bytes b p"
    by (simp add: o_def)
  have e: "example_block AES_encrypt ke b = map (\<lambda>x. x + 1) (xor_bytes b p)"
    unfolding example_block_def p_def by (simp add: Let_def)
  have le: "length (map (\<lambda>x. x + 1) (xor_bytes b p)) = length b"
    using lp by simp
  have d: "example_block AES_decrypt kd (map (\<lambda>x. x + 1) (xor_bytes b p))
             = xor_bytes (map (\<lambda>x. x - 1) (map (\<lambda>x. x + 1) (xor_bytes b p))) p"
    unfolding example_block_def p_def k le by (simp add: Let_def)
  show ?thesis
    unfolding e d m by (rule xor_bytes_cancel [OF lp])
qed

theorem plain_wrap_unwrap_roundtrip_witness:
  "\<exists>c0 cE cD C.
      aes_wrap_newctx True 128 64 (AES_WRAP_NOPAD_IVLEN * 8) 0x10002 0 = Some c0 \<and>
      aes_wrap_einit c0 (Some example_key) (128 div 8) (Some [1, 2, 3, 4, 5, 6, 7, 8]) 8
        = Some (1, cE, []) \<and>
      aes_wrap_cipher_internal (key_wrap_transform example_block) cE (Some (replicate 24 0))
        (Some example_data) (of_nat (8 * 2))
        = Some (of_nat (8 * 2 + 8), Some (C @ drop (8 * 2 + 8) (replicate 24 0))) \<and>
      length C = 8 * 2 + 8 \<and>
      aes_wrap_dinit c0 (Some example_key) (128 div 8) (Some [1, 2, 3, 4, 5, 6, 7, 8]) 8
        = Some (1, cD, []) \<and>
      aes_wrap_cipher_internal (key_wrap_transform example_block) cD (Some (replicate 24 0))
        (Some C) (of_nat (8 * 2 + 8))
        = Some (of_nat (8 * 2), Some (example_data @ drop (8 * 2) (replicate 24 0))) \<and>
      aes_wrap_cipher (key_wrap_transform example_block) cE (Some (replicate 24 0)) 0 24
          (Some example_data) (of_nat (8 * 2))
        = Some (1, Some (C @ drop (8 * 2 + 8) (replicate 24 0)), of_nat (8 * 2 + 8), []) \<and>
      aes_wrap_cipher (key_wrap_transform example_block) cD (Some (replicate 24 0)) 0 24
          (Some C) (of_nat (8 * 2 + 8))
        = Some (1, Some (example_data @ drop (8 * 2) (replicate 24 0)), of_nat (8 * 2), [])"
proof -
  have "\<exists>c0 cE cD C.
      aes_wrap_newctx True 128 64 (AES_WRAP_NOPAD_IVLEN * 8) 0x10002 0 = Some c0 \<and>
      aes_wrap_einit c0 (Some example_key) (128 div 8) (Some [1, 2, 3, 4, 5, 6, 7, 8]) 8
        = Some (1, cE, []) \<and>
      aes_wrap_cipher_internal (key_wrap_transform example_block) cE (Some (replicate 24 0))
        (Some example_data) (of_nat (8 * 2))
        = Some (of_nat (8 * 2 + 8), Some (C @ drop (8 * 2 + 8) (replicate 24 0))) \<and>
      length C = 8 * 2 + 8 \<and>
      aes_wrap_dinit c0 (Some example_key) (128 div 8) (Some [1, 2, 3, 4, 5, 6, 7, 8]) 8
        = Some (1, cD, []) \<and>
      aes_wrap_cipher_internal (key_wrap_transform example_block) cD (Some (replicate 24 0))
        (Some C) (of_nat (8 * 2 + 8))
        = Some (of_nat (8 * 2), Some (example_data @ drop (8 * 2) (replicate 24 0))) \<and>
      (8 * 2 + 8 < (2 :: nat) ^ 31 \<and> of_nat (8 * 2) \<le> (24 :: size_t) \<and>
         of_nat (8 * 2 + 8) \<le> (24 :: size_t) \<longrightarrow>
         aes_wrap_cipher (key_wrap_transform example_block) cE (Some (replicate 24 0)) 0 24
             (Some example_data) (of_nat (8 * 2))
           = Some (1, Some (C @ drop (8 * 2 + 8) (replicate 24 0)), of_nat (8 * 2 + 8), []) \<and>
         aes_wrap_cipher (key_wrap_transform example_block) cD (Some (replicate 24 0)) 0 24
             (Some C) (of_nat (8 * 2 + 8))
           = Some (1, Some (example_data @ drop (8 * 2) (replicate 24 0)), of_nat (8 * 2), []))"
  proof (rule plain_wrap_unwrap_roundtrip)
  show "(128 :: size_t) \<in> {128, 192, 256}" by simp
  show "length example_key = unat (128 :: size_t) div 8" by (simp add: example_key_def)
  show "length (example_block AES_encrypt (AES_set_encrypt_key example_key (ucast (128 :: size_t))) b) = 16"
    if "length b = 16" for b
    using that by (simp add: length_example_block)
  show "example_block AES_decrypt (AES_set_decrypt_key example_key (ucast (128 :: size_t)))
          (example_block AES_encrypt (AES_set_encrypt_key example_key (ucast (128 :: size_t))) b) = b"
    if "length b = 16" for b
    by (rule example_block_inverse) (simp add: AES_set_encrypt_key_def AES_set_decrypt_key_def)
  show "case Some [1, 2, 3, 4, 5, 6, 7, 8 :: byte] of None \<Rightarrow> True
        | Some v \<Rightarrow> unat (8 :: size_t) \<le> length v \<and> unat (8 :: size_t) \<le> GENERIC_BLOCK_SIZE"
    by (simp add: GENERIC_BLOCK_SIZE_def)
  show "length example_data = 8 * 2" by (simp add: example_data_def)
  show "(2 :: nat) \<le> 2" by simp
  show "8 * 2 + 8 < (2 :: nat) ^ 64" by simp
    show "8 * 2 + 8 \<le> length (replicate 24 (0 :: byte))" by simp
    show "8 * 2 \<le> length (replicate 24 (0 :: byte))" by simp
  qed
  moreover have "8 * 2 + 8 < (2 :: nat) ^ 31 \<and> of_nat (8 * 2) \<le> (24 :: size_t) \<and>
      of_nat (8 * 2 + 8) \<le> (24 :: size_t)"
    by simp
  ultimately show ?thesis by blast
qed

text \<open>
  With the transform of the spec, the update call on a 16-byte input with capacity 16
  writes 24 bytes: into an output region of the stated 16 bytes it has no defined
  result.
\<close>

lemma short_output_buffer_overflow:
  "aes_wrap_cipher (key_wrap_transform example_block) example_wrap_session
     (Some (replicate 16 0)) 0 16 (Some example_data) 16 = None"
proof -
  have "\<exists>C. kw_wrap example_block (AES_KEY_enc example_key 128) None example_data
               (of_nat (8 * 2)) AES_encrypt = (of_nat (8 * 2 + 8), C) \<and>
            length C = 8 * 2 + 8 \<and>
            kw_unwrap example_block (AES_KEY_dec example_key 128) None C
               (of_nat (8 * 2 + 8)) AES_decrypt = (of_nat (8 * 2), example_data)"
  proof (rule kw_wrap_then_unwrap)
    show "length (example_block AES_encrypt (AES_KEY_enc example_key 128) b) = 16"
      if "length b = 16" for b
      using that by (simp add: length_example_block)
    show "example_block AES_decrypt (AES_KEY_dec example_key 128)
            (example_block AES_encrypt (AES_KEY_enc example_key 128) b) = b"
      if "length b = 16" for b
      by (rule example_block_inverse) simp
    show "length example_data = 8 * 2" by (simp add: example_data_def)
    show "(1 :: nat) \<le> 2" by simp
    show "8 * 2 + 8 < (2 :: nat) ^ 64" by simp
    show "case None :: byte list option of None \<Rightarrow> True | Some v \<Rightarrow> 8 \<le> length v" by simp
  qed
  then obtain C where
    w: "kw_wrap example_block (AES_KEY_enc example_key 128) None example_data 16 AES_encrypt
          = (24, C)"
    and l: "length C = 24"
    by auto
  show ?thesis
    by (simp add: aes_wrap_cipher_def aes_wrap_cipher_internal_def example_wrap_session_def
        key_wrap_transform_def w l store_def example_data_def [symmetric])
qed

section \<open>The size query and the processing call\<close>

lemma example_pad_sessions:
  "aes_wrap_newctx True 128 64 32 0x10002 0 = Some example_pad_session"
  "aes_wrap_einit example_pad_session (Some example_key) 16 None 0
     = Some (1, example_wrappad_session, [])"
  "aes_wrap_dinit example_pad_session (Some example_key) 16 None 0
     = Some (1, example_unwrappad_session, [])"
  by (simp_all add: newctx_128_wrappad example_pad_session_def example_wrappad_session_def
      example_unwrappad_session_def aes_wrap_einit_def aes_wrap_dinit_def aes_wrap_init_def
      Let_def example_key_def AES_set_encrypt_key_def AES_set_decrypt_key_def)

lemma example_kwp_wrap:
  "kwp_wrap example_block (AES_KEY_enc example_key 128) None [1, 2, 3] 3 AES_encrypt
     = (16, example_pad_ciphertext)"
  by code_simp

lemma example_kwp_unwrap:
  "kwp_unwrap example_block (AES_KEY_dec example_key 128) None example_pad_ciphertext 16
     AES_decrypt = (3, [1, 2, 3])"
  by code_simp

lemma aes_wrap_init_iv_length:
  "aes_wrap_init vctx key keylen' iv' ivlen' enc' = Some (r, ctx, errs) \<Longrightarrow>
     length (iv ctx) = length (iv vctx)"
  by (auto simp: aes_wrap_init_def Let_def memcpy_def split: option.splits if_splits)

lemma aes_wrap_newctx_iv_length:
  "aes_wrap_newctx mem kbits blkbits ivbits mode' flags' = Some c0 \<Longrightarrow>
     length (iv c0) = GENERIC_BLOCK_SIZE"
  by (auto simp: aes_wrap_newctx_def OPENSSL_zalloc_def cipher_generic_initkey_def Let_def
      split: if_splits)

lemma dispatch_iv_length:
  "dispatch W L G ctx x = Some ctx' \<Longrightarrow> length (iv ctx') = length (iv ctx)"
  by (cases x)
    (auto simp: aes_wrap_einit_def aes_wrap_dinit_def aes_wrap_final_def
      aes_wrap_set_ctx_params_def
      dest: aes_wrap_init_iv_length split: option.splits if_splits)

lemma run_iv_length: "run W L G ctx xs = Some ctx' \<Longrightarrow> length (iv ctx') = length (iv ctx)"
proof (induction xs arbitrary: ctx)
  case Nil
  then show ?case by simp
next
  case (Cons x xs)
  then show ?case by (auto split: option.splits dest: dispatch_iv_length)
qed

lemma aes_wrap_einit_initialised:
  assumes "length (iv vctx) = GENERIC_BLOCK_SIZE"
    and "aes_wrap_einit vctx key keylen' iv' ivlen' = Some (r, ctx, errs)"
  shows "initialised ctx"
  using assms
  by (auto simp: aes_wrap_einit_def aes_wrap_init_def initialised_def Let_def memcpy_def
      split: option.splits if_splits)

lemma aes_wrap_dinit_initialised:
  assumes "length (iv vctx) = GENERIC_BLOCK_SIZE"
    and "aes_wrap_dinit vctx key keylen' iv' ivlen' = Some (r, ctx, errs)"
  shows "initialised ctx"
  using assms
  by (auto simp: aes_wrap_dinit_def aes_wrap_init_def initialised_def Let_def memcpy_def
      split: option.splits if_splits)

lemma dispatch_initialised:
  assumes "initialised ctx" and "dispatch W L G ctx x = Some ctx'"
  shows "initialised ctx'"
proof -
  from assms(1) have l: "length (iv ctx) = GENERIC_BLOCK_SIZE" by (simp add: initialised_def)
  show ?thesis
  proof (cases x)
    case (Encrypt_init key keylen' iv' ivlen')
    with assms(2) l show ?thesis by (auto dest: aes_wrap_einit_initialised)
  next
    case (Decrypt_init key keylen' iv' ivlen')
    with assms(2) l show ?thesis by (auto dest: aes_wrap_dinit_initialised)
  next
    case (Update out outl outsize inp inl)
    with assms show ?thesis by auto
  next
    case (Final out outl outsize)
    with assms show ?thesis by (simp add: aes_wrap_final_def)
  next
    case (Set_ctx_params params)
    with assms show ?thesis
      by (auto simp: aes_wrap_set_ctx_params_def split: option.splits if_splits)
  qed
qed

text \<open>
  Every session that was created, taken through any calls, initialised and taken
  through any further calls is initialised.
\<close>

lemma reachable_initialised:
  assumes new: "aes_wrap_newctx mem kbits blkbits ivbits mode' flags' = Some c0"
    and before: "run W L G c0 ops = Some c1"
    and init: "aes_wrap_einit c1 key keylen' iv' ivlen' = Some (r, c2, errs) \<or>
               aes_wrap_dinit c1 key keylen' iv' ivlen' = Some (r, c2, errs)"
    and after: "run W L G c2 ops' = Some c3"
  shows "initialised c3"
proof -
  have "length (iv c1) = GENERIC_BLOCK_SIZE"
    using aes_wrap_newctx_iv_length [OF new] run_iv_length [OF before] by simp
  with init have "initialised c2"
    by (auto dest: aes_wrap_einit_initialised aes_wrap_dinit_initialised)
  with after show ?thesis
  proof (induction ops' arbitrary: c2)
    case Nil
    then show ?case by simp
  next
    case (Cons x xs)
    then show ?case by (auto split: option.splits dest: dispatch_initialised)
  qed
qed

lemma wrap_step_state:
  assumes len: "\<And>b. length b = 16 \<Longrightarrow> length (E b) = 16"
    and st: "kw_state n s" and i: "1 \<le> i" "i \<le> n"
  shows "kw_state n (wrap_step E n (j, i) s)"
proof -
  obtain A R where s: "s = (A, R)" by (cases s)
  from st s have A: "length A = 8" and R: "length R = n" and Rs: "\<forall>r\<in>set R. length r = 8"
    by (auto simp: kw_state_def)
  from i R have "i - 1 < length R" by simp
  then have "length (R ! (i - 1)) = 8" using Rs by simp
  then have "length (E (A @ R ! (i - 1))) = 16" using A by (intro len) simp
  then show ?thesis
    using R Rs
    by (auto simp: s wrap_step_def Let_def kw_state_def
        dest!: set_update_subset_insert [THEN subsetD])
qed

lemma unwrap_step_state:
  assumes len: "\<And>b. length b = 16 \<Longrightarrow> length (D b) = 16"
    and st: "kw_state n s" and i: "1 \<le> i" "i \<le> n"
  shows "kw_state n (unwrap_step D n (j, i) s)"
proof -
  obtain A R where s: "s = (A, R)" by (cases s)
  from st s have A: "length A = 8" and R: "length R = n" and Rs: "\<forall>r\<in>set R. length r = 8"
    by (auto simp: kw_state_def)
  from i R have "i - 1 < length R" by simp
  then have "length (R ! (i - 1)) = 8" using Rs by simp
  then have "length (D (xor_bytes A (be_bytes 8 (n * j + i)) @ R ! (i - 1))) = 16"
    using A by (intro len) simp
  then show ?thesis
    using R Rs
    by (auto simp: s unwrap_step_def Let_def kw_state_def
        dest!: set_update_subset_insert [THEN subsetD])
qed

lemma length_kw_wrap_raw:
  assumes len: "\<And>b. length b = 16 \<Longrightarrow> length (E b) = 16"
    and A0: "length A0 = 8" and P: "length P = 8 * n" and n: "1 \<le> n"
  shows "length (kw_wrap_raw E A0 P) = 8 * n + 8"
proof -
  have sb: "semiblocks P = chunks n P" using P by (simp add: semiblocks_def)
  from chunks_concat [OF P, of A0] A0
  have cc: "concat (chunks n P) = P" and st0: "kw_state n (A0, chunks n P)" by simp_all
  have ln: "length (chunks n P) = n" using st0 by (simp add: kw_state_def)
  show ?thesis
  proof (cases "n = 1")
    case True
    have "length (E (A0 @ P)) = 16" using A0 P True by (intro len) simp
    then show ?thesis using True P by (simp add: kw_wrap_raw_def sb Let_def)
  next
    case False
    define s where "s = fold (wrap_step E n) (wrap_schedule n) (A0, chunks n P)"
    have "kw_state n s" unfolding s_def
    proof (rule fold_invariant [where I = "kw_state n", OF st0])
      fix x t assume x: "x \<in> set (wrap_schedule n)" and t: "kw_state n t"
      obtain j i where ji: "x = (j, i)" by (cases x)
      with x have "1 \<le> i \<and> i \<le> n" by (auto dest: wrap_schedule_index)
      then show "kw_state n (wrap_step E n x t)"
        unfolding ji using wrap_step_state [of E, OF len t] by blast
    qed
    moreover obtain A R where s: "s = (A, R)" by (cases s)
    ultimately have "length A = 8" "length (concat R) = 8 * n"
      by (auto simp: kw_state_def length_concat_semiblocks)
    then show ?thesis
      using False s by (simp add: kw_wrap_raw_def sb ln Let_def s_def [symmetric])
  qed
qed

lemma length_kw_unwrap_raw:
  assumes len: "\<And>b. length b = 16 \<Longrightarrow> length (D b) = 16"
    and C: "length C = 8 * n + 8" and n: "1 \<le> n"
  shows "length (fst (kw_unwrap_raw D C)) = 8 \<and> length (snd (kw_unwrap_raw D C)) = 8 * n"
proof -
  have lt: "length (take 8 C) = 8" and ld: "length (drop 8 C) = 8 * n" using C by simp_all
  have sb: "semiblocks (drop 8 C) = chunks n (drop 8 C)" using ld by (simp add: semiblocks_def)
  from chunks_concat [OF ld, of "take 8 C"] lt
  have cc: "concat (chunks n (drop 8 C)) = drop 8 C"
    and st0: "kw_state n (take 8 C, chunks n (drop 8 C))" by simp_all
  have ln: "length (chunks n (drop 8 C)) = n" using st0 by (simp add: kw_state_def)
  show ?thesis
  proof (cases "n = 1")
    case True
    have "length (D (take 8 C @ drop 8 C)) = 16" using C True by (intro len) simp
    then show ?thesis using True ld by (simp add: kw_unwrap_raw_def sb Let_def)
  next
    case False
    define s where "s = fold (unwrap_step D n) (unwrap_schedule n) (take 8 C, chunks n (drop 8 C))"
    have "kw_state n s" unfolding s_def
    proof (rule fold_invariant [where I = "kw_state n", OF st0])
      fix x t assume x: "x \<in> set (unwrap_schedule n)" and t: "kw_state n t"
      obtain j i where ji: "x = (j, i)" by (cases x)
      with x have "1 \<le> i \<and> i \<le> n" by (auto simp: unwrap_schedule_rev dest: wrap_schedule_index)
      then show "kw_state n (unwrap_step D n x t)"
        unfolding ji using unwrap_step_state [of D, OF len t] by blast
    qed
    moreover obtain A R where s: "s = (A, R)" by (cases s)
    ultimately have "length A = 8" "length (concat R) = 8 * n"
      by (auto simp: kw_state_def length_concat_semiblocks)
    then show ?thesis
      using False s by (simp add: kw_unwrap_raw_def sb ln Let_def s_def [symmetric])
  qed
qed

text \<open>
  What a call of the session's transform returns and writes, for a valid input length
  \<open>m\<close>: a wrap writes \<open>query_size\<close> bytes, an unwrap without padding writes that many
  or fails, and an unwrap with padding writes between 1 and that many or fails.
\<close>

lemma key_wrap_transform_written:
  fixes B :: block_semantics
  assumes len: "\<And>b. length b = 16 \<Longrightarrow> length (B blk key b) = 16"
    and ivl: "case ivarg of None \<Rightarrow> True | Some v \<Rightarrow> 8 \<le> length v"
    and v: "valid_input_length e p (unat inlen)"
    and src: "unat inlen \<le> length src"
    and f: "f = (if p then (if e then CRYPTO_128_wrap_pad else CRYPTO_128_unwrap_pad)
                 else (if e then CRYPTO_128_wrap else CRYPTO_128_unwrap))"
    and W: "key_wrap_transform B f key ivarg src inlen blk = (rv, written)"
  shows "(rv = 0 \<and> written = [] \<and> \<not> e) \<or>
         (rv = of_nat (length written) \<and>
          (if p \<and> \<not> e then 0 < length written \<and> length written \<le> query_size e p (unat inlen)
           else length written = query_size e p (unat inlen)))"
proof -
  let ?m = "unat inlen"
  have lt: "length (take ?m src) = ?m" using src by simp
  show ?thesis
  proof (cases e)
    case True
    note e = this
    show ?thesis
    proof (cases p)
      case True
      from v e True have m: "0 < ?m" by (simp add: valid_input_length_def)
      define aiv where "aiv = (case ivarg of None \<Rightarrow> default_aiv | Some v \<Rightarrow> take 4 v)"
      have la: "length (aiv @ be_bytes 4 ?m) = 8"
        using ivl by (auto simp: aiv_def default_aiv_def split: option.splits)
      define n where "n = (?m + 7) div 8"
      have r8: "roundUp8 ?m = 8 * n" by (simp add: roundUp8_def n_def)
      have n1: "1 \<le> n" using m by (simp add: n_def)
      have "?m \<le> roundUp8 ?m" by (simp add: roundUp8_def)
      then have lp: "length (take ?m src @ replicate (roundUp8 ?m - ?m) 0) = 8 * n"
        using lt r8 by simp
      from length_kw_wrap_raw [of "B blk key", OF len la lp n1]
      have "length (kw_wrap_raw (B blk key) (aiv @ be_bytes 4 ?m)
               (take ?m src @ replicate (roundUp8 ?m - ?m) 0)) = roundUp8 ?m + 8"
        by (simp add: r8)
      with W e True m f show ?thesis
        by (auto simp: key_wrap_transform_def kwp_wrap_def Let_def query_size_def
            aiv_def [symmetric])
    next
      case False
      from v e False have m: "0 < ?m" "?m mod 8 = 0" by (simp_all add: valid_input_length_def)
      define A0 where "A0 = (case ivarg of None \<Rightarrow> default_iv | Some v \<Rightarrow> take 8 v)"
      have la: "length A0 = 8"
        using ivl by (auto simp: A0_def default_iv_def split: option.splits)
      define n where "n = ?m div 8"
      have "?m = 8 * n" using m unfolding n_def by presburger
      then have lp: "length (take ?m src) = 8 * n" using lt by simp
      have n1: "1 \<le> n" using m unfolding n_def by presburger
      from length_kw_wrap_raw [of "B blk key", OF len la lp n1] \<open>?m = 8 * n\<close>
      have "length (kw_wrap_raw (B blk key) A0 (take ?m src)) = ?m + 8"
        by simp
      with W e False m f show ?thesis
        by (auto simp: key_wrap_transform_def kw_wrap_def Let_def query_size_def
            A0_def [symmetric])
    qed
  next
    case False
    note e = this
    from v e have m: "?m mod 8 = 0" "16 \<le> ?m" by (simp_all add: valid_input_length_def)
    define n where "n = ?m div 8 - 1"
    have "?m = 8 * n + 8" using m unfolding n_def by presburger
    then have lc: "length (take ?m src) = 8 * n + 8" using lt by simp
    have n1: "1 \<le> n" using m unfolding n_def by presburger
    obtain A P where AP: "kw_unwrap_raw (B blk key) (take ?m src) = (A, P)"
      by (cases "kw_unwrap_raw (B blk key) (take ?m src)")
    from length_kw_unwrap_raw [of "B blk key", OF len lc n1] AP \<open>?m = 8 * n + 8\<close>
    have lP: "length P = ?m - 8" by simp
    show ?thesis
    proof (cases p)
      case True
      with W e m f AP lP show ?thesis
        by (auto simp: key_wrap_transform_def kwp_unwrap_def Let_def query_size_def
            split: if_splits)
    next
      case False
      with W e m f AP lP show ?thesis
        by (auto simp: key_wrap_transform_def kw_unwrap_def Let_def query_size_def
            split: if_splits)
    qed
  qed
qed

lemma aes_wrap_cipher_internal_real:
  assumes v: "valid_input_length (enc vctx) (pad vctx) (unat inlen)"
    and f: "wrapfn vctx = Some f" and blk: "block vctx = Some blk"
  shows "aes_wrap_cipher_internal W vctx (Some dst) (Some src) inlen =
           (if length src < unat inlen then None
            else (case W f (ks vctx) (if iv_set vctx then Some (iv vctx) else None) src inlen blk of
                    (rv, written) \<Rightarrow>
                      (case store dst written of
                         None \<Rightarrow> None
                       | Some dst' \<Rightarrow> Some (if rv \<noteq> 0 then ucast rv else - 1, Some dst'))))"
proof -
  have "(inlen = 0) = (unat inlen = 0)" by (rule unat_size_t_0)
  moreover have "(inlen < 16) = (unat inlen < 16)" by (simp add: word_less_nat_alt)
  ultimately show ?thesis
    using v
    by (auto simp: aes_wrap_cipher_internal_def Let_def valid_input_length_def and7_iff f blk
        split: if_splits)
qed

lemma example_pad_wrap_call:
  "aes_wrap_cipher_internal (key_wrap_transform example_block) example_wrappad_session
     (Some (replicate 16 0)) (Some [1, 2, 3]) 3 = Some (16, Some example_pad_ciphertext)"
  by (simp add: aes_wrap_cipher_internal_def example_wrappad_session_def Let_def
      key_wrap_transform_def example_kwp_wrap store_def)
    (simp add: example_pad_ciphertext_def)

lemma example_pad_unwrap_call:
  "aes_wrap_cipher_internal (key_wrap_transform example_block) example_unwrappad_session
     (Some (replicate 8 0)) (Some example_pad_ciphertext) 16
     = Some (3, Some ([1, 2, 3] @ replicate 5 0))"
proof -
  have l: "length example_pad_ciphertext = 16" by (simp add: example_pad_ciphertext_def)
  show ?thesis
    by (simp add: aes_wrap_cipher_internal_def example_unwrappad_session_def Let_def
        key_wrap_transform_def example_kwp_unwrap store_def l)
qed

text \<open>
  Claim C1, as amended. For every session and every input, the call without an output
  region gives the same result whatever the transform is, so it does no cryptographic
  work. For every input length that is valid for the session (positive; a multiple of 8
  without padding; at least 16 and a multiple of 8 when unwrapping) it returns input
  length + 8 when wrapping without padding, the input length rounded up to a multiple
  of 8, + 8, when wrapping with padding, and input length - 8 when unwrapping, provided
  that number fits the \<open>int\<close> result; the update function then reports the same number
  as the output length, provided the stated capacity is at least the input length.
  When the session has been initialised and the call with an output region succeeds,
  the number of bytes that call writes and returns is exactly the number the query
  returned when wrapping and when unwrapping without padding; when unwrapping with
  padding it is at least 1 and at most the number the query returned.
\<close>

theorem size_query:
  fixes B :: block_semantics
  shows
  "aes_wrap_cipher_internal W vctx None inp inlen =
     aes_wrap_cipher_internal W' vctx None inp inlen \<and>
   aes_wrap_cipher W vctx None outl outsize inp inlen =
     aes_wrap_cipher W' vctx None outl outsize inp inlen \<and>
   (valid_input_length (enc vctx) (pad vctx) (unat inlen) \<and>
    query_size (enc vctx) (pad vctx) (unat inlen) < 2 ^ 31 \<longrightarrow>
      aes_wrap_cipher_internal W vctx None (Some src) inlen =
        Some (of_nat (query_size (enc vctx) (pad vctx) (unat inlen)), None) \<and>
      sint (of_nat (query_size (enc vctx) (pad vctx) (unat inlen)) :: c_int) =
        int (query_size (enc vctx) (pad vctx) (unat inlen)) \<and>
      (inlen \<le> outsize \<longrightarrow>
         aes_wrap_cipher W vctx None outl outsize (Some src) inlen =
           Some (1, None, of_nat (query_size (enc vctx) (pad vctx) (unat inlen)), [])) \<and>
      (initialised vctx \<and>
       (\<forall>b. length b = 16 \<longrightarrow>
          length (B (if enc vctx then AES_encrypt else AES_decrypt) (ks vctx) b) = 16) \<and>
       aes_wrap_cipher_internal (key_wrap_transform B) vctx (Some dst) (Some src) inlen =
         Some (r, out') \<and>
       r \<noteq> - 1 \<longrightarrow>
         (\<exists>written.
            out' = Some (written @ drop (length written) dst) \<and>
            r = of_nat (length written) \<and>
            (if pad vctx \<and> \<not> enc vctx
             then 0 < length written \<and>
                  length written \<le> query_size (enc vctx) (pad vctx) (unat inlen)
             else length written = query_size (enc vctx) (pad vctx) (unat inlen)))))"
proof (intro conjI impI)
  show i: "aes_wrap_cipher_internal W vctx None inp inlen =
      aes_wrap_cipher_internal W' vctx None inp inlen"
    by (simp add: aes_wrap_cipher_internal_def Let_def split: option.splits)
  show "aes_wrap_cipher W vctx None outl outsize inp inlen =
      aes_wrap_cipher W' vctx None outl outsize inp inlen"
    by (simp add: aes_wrap_cipher_def i)
next
  let ?q = "query_size (enc vctx) (pad vctx) (unat inlen)"
  assume vb: "valid_input_length (enc vctx) (pad vctx) (unat inlen) \<and> ?q < 2 ^ 31"
  then have v: "valid_input_length (enc vctx) (pad vctx) (unat inlen)"
    and qb: "?q < 2 ^ 31" by simp_all
  have ru: "unat inlen \<le> roundUp8 (unat inlen)" by (simp add: roundUp8_def)
  have qp: "0 < ?q"
    using v by (auto simp: query_size_def valid_input_length_def split: if_splits)
  have nz: "inlen \<noteq> 0"
    using v by (auto simp: valid_input_length_def unat_size_t_0 split: if_splits)
  show int: "aes_wrap_cipher_internal W vctx None (Some src) inlen = Some (of_nat ?q, None)"
  proof (cases "enc vctx")
    case True
    note e = this
    show ?thesis
    proof (cases "pad vctx")
      case True
      with e qb have r: "roundUp8 (unat inlen) + 8 < 2 ^ 31" by (simp add: query_size_def)
      with ru have "unat inlen + 7 < 2 ^ 64" by simp
      from unat_roundup [OF this] r
      have "unat ((inlen + 7) div 8 * 8 + 8) = roundUp8 (unat inlen) + 8"
        using unat_add_small [of "(inlen + 7) div 8 * 8" 8] by simp
      with e True nz show ?thesis
        by (simp add: aes_wrap_cipher_internal_def Let_def query_size_def ucast_size_t_int
            del: of_nat_unat of_nat_add)
    next
      case False
      with e qb have "unat inlen + 8 < 2 ^ 31" by (simp add: query_size_def)
      then have "unat (inlen + 8) = unat inlen + 8"
        using unat_add_small [of inlen 8] by simp
      with e False nz v show ?thesis
        by (simp add: aes_wrap_cipher_internal_def Let_def query_size_def ucast_size_t_int
            valid_input_length_def and7_iff del: of_nat_unat of_nat_add)
    qed
  next
    case False
    with v have "16 \<le> unat inlen" "unat inlen mod 8 = 0"
      by (auto simp: valid_input_length_def)
    then show ?thesis
      using False nz unat_sub8 [of inlen]
      by (auto simp: aes_wrap_cipher_internal_def Let_def query_size_def
          and7_iff ucast_size_t_int word_less_nat_alt simp del: of_nat_unat of_nat_diff)
  qed
  show "sint (of_nat ?q :: c_int) = int ?q" using qb by (rule sint_of_nat_small)
  {
    have sc: "(scast (of_nat ?q :: c_int) :: size_t) = of_nat ?q"
      using qb by (rule scast_of_nat_small)
    have q0: "(of_nat ?q :: size_t) \<noteq> 0"
      using qb qp by (simp add: unat_size_t_0 unat_of_nat)
    assume "inlen \<le> outsize"
    with sc q0 show "aes_wrap_cipher W vctx None outl outsize (Some src) inlen =
        Some (1, None, of_nat ?q, [])"
      by (auto simp: aes_wrap_cipher_def int Let_def)
  }
  assume h: "initialised vctx \<and>
       (\<forall>b. length b = 16 \<longrightarrow>
          length (B (if enc vctx then AES_encrypt else AES_decrypt) (ks vctx) b) = 16) \<and>
       aes_wrap_cipher_internal (key_wrap_transform B) vctx (Some dst) (Some src) inlen =
         Some (r, out') \<and>
       r \<noteq> - 1"
  define blk where "blk = (if enc vctx then AES_encrypt else AES_decrypt)"
  define f where "f = (if pad vctx
      then (if enc vctx then CRYPTO_128_wrap_pad else CRYPTO_128_unwrap_pad)
      else (if enc vctx then CRYPTO_128_wrap else CRYPTO_128_unwrap))"
  define ivarg where "ivarg = (if iv_set vctx then Some (iv vctx) else None)"
  from h have wf: "wrapfn vctx = Some f" and bl: "block vctx = Some blk"
    and li: "length (iv vctx) = GENERIC_BLOCK_SIZE"
    by (simp_all add: initialised_def f_def blk_def)
  from h have len: "\<And>b. length b = 16 \<Longrightarrow> length (B blk (ks vctx) b) = 16"
    by (simp add: blk_def)
  from h have real: "aes_wrap_cipher_internal (key_wrap_transform B) vctx (Some dst) (Some src)
      inlen = Some (r, out')" and r: "r \<noteq> - 1" by simp_all
  have ivl: "case ivarg of None \<Rightarrow> True | Some v \<Rightarrow> 8 \<le> length v"
    using li by (simp add: ivarg_def GENERIC_BLOCK_SIZE_def)
  obtain rv written where
    W: "key_wrap_transform B f (ks vctx) ivarg src inlen blk = (rv, written)"
    by (cases "key_wrap_transform B f (ks vctx) ivarg src inlen blk")
  from real have unf: "(if length src < unat inlen then None
      else (case store dst written of None \<Rightarrow> None
            | Some dst' \<Rightarrow> Some (if rv \<noteq> 0 then ucast rv else - 1, Some dst')))
      = Some (r, out')"
    unfolding aes_wrap_cipher_internal_real [OF v wf bl] ivarg_def [symmetric] W prod.case .
  then have src: "unat inlen \<le> length src" by (cases "length src < unat inlen") simp_all
  with unf have res: "(case store dst written of None \<Rightarrow> None
            | Some dst' \<Rightarrow> Some (if rv \<noteq> 0 then ucast rv else - 1, Some dst'))
      = Some (r, out')" by simp
  then obtain dst' where st: "store dst written = Some dst'"
    by (cases "store dst written") simp_all
  then have sd: "dst' = written @ drop (length written) dst"
    by (auto simp: store_def split: if_splits)
  from res st sd have r_eq: "r = (if rv \<noteq> 0 then ucast rv else - 1)"
    and o_eq: "out' = Some (written @ drop (length written) dst)" by simp_all
  from r r_eq have rv0: "rv \<noteq> 0" by (auto split: if_splits)
  from key_wrap_transform_written [of B blk "ks vctx" ivarg "enc vctx" "pad vctx" inlen src f
      rv written, OF len ivl v src f_def W] rv0
  have rvw: "rv = of_nat (length written)"
    and c: "if pad vctx \<and> \<not> enc vctx
            then 0 < length written \<and> length written \<le> ?q else length written = ?q"
    by auto
  from c qb have "length written < 2 ^ 64" by (auto split: if_splits)
  then have "(ucast (of_nat (length written) :: size_t) :: c_int) = of_nat (length written)"
    by (rule ucast_of_nat_size_t)
  with r_eq rv0 rvw have "r = of_nat (length written)" by simp
  with o_eq c show "\<exists>written.
            out' = Some (written @ drop (length written) dst) \<and>
            r = of_nat (length written) \<and>
            (if pad vctx \<and> \<not> enc vctx
             then 0 < length written \<and> length written \<le> ?q
             else length written = ?q)"
    by blast
qed

text \<open>
  The query does not always return the number of bytes the call with an output region
  produces. A 128-bit session with padding is created and initialised for wrapping; the
  3-byte message 1, 2, 3 is wrapped into 16 bytes. A session created and initialised
  alike for unwrapping answers the query for these 16 bytes with 8, and the call with
  an output region writes and returns 3 bytes.
\<close>

theorem size_query_counterexample:
  "aes_wrap_newctx True 128 64 32 0x10002 0 = Some example_pad_session \<and>
   aes_wrap_einit example_pad_session (Some example_key) 16 None 0
     = Some (1, example_wrappad_session, []) \<and>
   aes_wrap_cipher_internal (key_wrap_transform example_block) example_wrappad_session
     (Some (replicate 16 0)) (Some [1, 2, 3]) 3 = Some (16, Some example_pad_ciphertext) \<and>
   aes_wrap_dinit example_pad_session (Some example_key) 16 None 0
     = Some (1, example_unwrappad_session, []) \<and>
   aes_wrap_cipher_internal (key_wrap_transform example_block) example_unwrappad_session
     None (Some example_pad_ciphertext) 16 = Some (8, None) \<and>
   aes_wrap_cipher_internal (key_wrap_transform example_block) example_unwrappad_session
     (Some (replicate 8 0)) (Some example_pad_ciphertext) 16
     = Some (3, Some ([1, 2, 3] @ replicate 5 0)) \<and>
   aes_wrap_cipher (key_wrap_transform example_block) example_unwrappad_session
     None 0 16 (Some example_pad_ciphertext) 16 = Some (1, None, 8, []) \<and>
   aes_wrap_cipher (key_wrap_transform example_block) example_unwrappad_session
     (Some (replicate 16 0)) 0 16 (Some example_pad_ciphertext) 16
     = Some (1, Some ([1, 2, 3] @ replicate 13 0), 3, [])"
proof -
  have l: "length example_pad_ciphertext = 16" by (simp add: example_pad_ciphertext_def)
  have q: "aes_wrap_cipher_internal (key_wrap_transform example_block)
      example_unwrappad_session None (Some example_pad_ciphertext) 16 = Some (8, None)"
    by (simp add: aes_wrap_cipher_internal_def example_unwrappad_session_def)
  have u: "aes_wrap_cipher_internal (key_wrap_transform example_block)
      example_unwrappad_session (Some (replicate 16 0)) (Some example_pad_ciphertext) 16
      = Some (3, Some ([1, 2, 3] @ replicate 13 0))"
    by (simp add: aes_wrap_cipher_internal_def example_unwrappad_session_def Let_def
        key_wrap_transform_def example_kwp_unwrap store_def l)
  show ?thesis
    by (simp add: example_pad_sessions example_pad_wrap_call example_pad_unwrap_call q
        aes_wrap_cipher_def u del: replicate.simps)
qed

theorem size_query_witness:
  "aes_wrap_cipher_internal (key_wrap_transform example_block) example_unwrappad_session
     None (Some example_pad_ciphertext) 16 =
   aes_wrap_cipher_internal (\<lambda>f key ivarg src inlen blk. (0, [])) example_unwrappad_session
     None (Some example_pad_ciphertext) 16 \<and>
   aes_wrap_cipher (key_wrap_transform example_block) example_unwrappad_session
     None 0 16 (Some example_pad_ciphertext) 16 =
   aes_wrap_cipher (\<lambda>f key ivarg src inlen blk. (0, [])) example_unwrappad_session
     None 0 16 (Some example_pad_ciphertext) 16 \<and>
   aes_wrap_cipher_internal (key_wrap_transform example_block) example_unwrappad_session
     None (Some example_pad_ciphertext) 16 = Some (8, None) \<and>
   sint (8 :: c_int) = 8 \<and>
   aes_wrap_cipher (key_wrap_transform example_block) example_unwrappad_session
     None 0 16 (Some example_pad_ciphertext) 16 = Some (1, None, 8, []) \<and>
   (\<exists>written.
      Some ([1, 2, 3] @ replicate 5 (0 :: byte)) = Some (written @ drop (length written) (replicate 8 0)) \<and>
      (3 :: c_int) = of_nat (length written) \<and>
      0 < length written \<and> length written \<le> 8) \<and>
   aes_wrap_cipher_internal (key_wrap_transform example_block) example_wrappad_session
     None (Some [1, 2, 3]) 3 = Some (16, None) \<and>
   aes_wrap_cipher (key_wrap_transform example_block) example_wrappad_session
     None 0 3 (Some [1, 2, 3]) 3 = Some (1, None, 16, []) \<and>
   (\<exists>written.
      Some example_pad_ciphertext = Some (written @ drop (length written) (replicate 16 0)) \<and>
      (16 :: c_int) = of_nat (length written) \<and>
      length written = 16)"
proof -
  let ?W = "key_wrap_transform example_block"
  let ?W' = "(\<lambda>f key ivarg src inlen blk. (0, [])) :: wrap_semantics"
  have u: "enc example_unwrappad_session = False" "pad example_unwrappad_session = True"
    "ks example_unwrappad_session = AES_KEY_dec example_key 128"
    by (simp_all add: example_unwrappad_session_def)
  have w: "enc example_wrappad_session = True" "pad example_wrappad_session = True"
    "ks example_wrappad_session = AES_KEY_enc example_key 128"
    by (simp_all add: example_wrappad_session_def)
  have iu: "initialised example_unwrappad_session"
    by (simp add: initialised_def example_unwrappad_session_def GENERIC_BLOCK_SIZE_def)
  have iw: "initialised example_wrappad_session"
    by (simp add: initialised_def example_wrappad_session_def GENERIC_BLOCK_SIZE_def)
  have vu: "valid_input_length False True (unat (16 :: size_t))"
    by (simp add: valid_input_length_def)
  have vw: "valid_input_length True True (unat (3 :: size_t))"
    by (simp add: valid_input_length_def)
  have qu: "query_size False True (unat (16 :: size_t)) = 8"
    by (simp add: query_size_def)
  have qw: "query_size True True (unat (3 :: size_t)) = 16"
    by (simp add: query_size_def roundUp8_def)
  have b: "\<forall>b. length b = 16 \<longrightarrow> length (example_block blk key b) = 16" for blk key
    by (simp add: length_example_block)
  note tu = size_query [where W = ?W and W' = ?W' and vctx = example_unwrappad_session
      and inp = "Some example_pad_ciphertext" and inlen = 16 and outl = 0 and outsize = 16
      and src = example_pad_ciphertext and B = example_block and dst = "replicate 8 0"
      and r = 3 and out' = "Some ([1, 2, 3] @ replicate 5 0)"]
  note tw = size_query [where W = ?W and W' = ?W' and vctx = example_wrappad_session
      and inp = "Some [1, 2, 3]" and inlen = 3 and outl = 0 and outsize = 3
      and src = "[1, 2, 3]" and B = example_block and dst = "replicate 16 0"
      and r = 16 and out' = "Some example_pad_ciphertext"]
  have 1: "aes_wrap_cipher_internal ?W example_unwrappad_session
       None (Some example_pad_ciphertext) 16 =
     aes_wrap_cipher_internal ?W' example_unwrappad_session
       None (Some example_pad_ciphertext) 16 \<and>
     aes_wrap_cipher ?W example_unwrappad_session
       None 0 16 (Some example_pad_ciphertext) 16 =
     aes_wrap_cipher ?W' example_unwrappad_session
       None 0 16 (Some example_pad_ciphertext) 16"
    using tu by blast
  have 2: "aes_wrap_cipher_internal ?W example_unwrappad_session
       None (Some example_pad_ciphertext) 16 = Some (8, None) \<and>
     sint (8 :: c_int) = 8 \<and>
     aes_wrap_cipher ?W example_unwrappad_session
       None 0 16 (Some example_pad_ciphertext) 16 = Some (1, None, 8, []) \<and>
     (\<exists>written.
        Some ([1, 2, 3] @ replicate 5 (0 :: byte)) = Some (written @ drop (length written) (replicate 8 0)) \<and>
        (3 :: c_int) = of_nat (length written) \<and>
        0 < length written \<and> length written \<le> 8)"
    using tu [THEN conjunct2, THEN conjunct2] vu iu
      b [of AES_decrypt "AES_KEY_dec example_key 128"] example_pad_unwrap_call
    unfolding u qu by simp
  have 3: "aes_wrap_cipher_internal ?W example_wrappad_session
       None (Some [1, 2, 3]) 3 = Some (16, None) \<and>
     aes_wrap_cipher ?W example_wrappad_session
       None 0 3 (Some [1, 2, 3]) 3 = Some (1, None, 16, []) \<and>
     (\<exists>written.
        Some example_pad_ciphertext = Some (written @ drop (length written) (replicate 16 0)) \<and>
        (16 :: c_int) = of_nat (length written) \<and>
        length written = 16)"
    using tw [THEN conjunct2, THEN conjunct2] vw iw
      b [of AES_encrypt "AES_KEY_enc example_key 128"] example_pad_wrap_call
    unfolding w qw by simp
  from 1 2 3 show ?thesis by (simp only: simp_thms)
qed


end
